theory Spec2Isabelle
  imports Main "HOL-Library.Word" "HOL-Library.Multiset" "HOL-Library.Sublist"
begin

section \<open>Practical Parallel Key Switch over an elliptic-curve backend\<close>

text \<open>
  The library (package \<open>ppks\<close>) comes in two files: the variant with the
  share proofs and the plain variant \<open>ppks.go\<close>.  Functions that are
  the same in both files are modelled once; where \<open>ppks.go\<close> differs
  (\<open>PointDecrypt\<close>, \<open>ShareCal\<close>) its version carries the suffix
  \<open>_ppks\<close>.

  A \<open>*big.Int\<close> is an \<open>int\<close>, a byte slice is a list of 8-bit
  words.  A Go panic and the error result of the random source are values of
  type \<open>error\<close>; a function that can fail returns \<open>error + 'a\<close>.
\<close>

subsection \<open>Big integers and byte strings\<close>

type_synonym byte = "8 word"

datatype error =
    EntropyFailure
  | PanicIndexOutOfRange
  | PanicDivisionByZero
  | PanicNegativeLen

text \<open>
  \<open>EntropyFailure\<close> is the one error value the library hands to its
  callers (the \<open>err\<close> of \<open>io.ReadFull\<close>).  The other three are
  run-time panics of Go: the call ends without a result and without an
  error value.
\<close>

definition is_panic :: "error \<Rightarrow> bool" where
  "is_panic e = (case e of EntropyFailure \<Rightarrow> False | _ \<Rightarrow> True)"

text \<open>The error value a call returns to its caller, if it returns one.\<close>

definition error_value :: "error + 'a \<Rightarrow> error option" where
  "error_value r =
     (case r of
        Inl e \<Rightarrow> if is_panic e then None else Some e
      | Inr _ \<Rightarrow> None)"

text \<open>\<open>(*big.Int).SetBytes\<close>: the bytes read as a big-endian unsigned integer.\<close>

definition SetBytes :: "byte list \<Rightarrow> int" where
  "SetBytes b = foldl (\<lambda>acc x. acc * 256 + uint x) 0 b"

text \<open>\<open>(*big.Int).Bytes\<close>: the absolute value, big-endian, no leading zero byte.\<close>

fun be_bytes :: "nat \<Rightarrow> byte list" where
  "be_bytes n = (if n = 0 then [] else be_bytes (n div 256) @ [of_nat (n mod 256)])"

declare be_bytes.simps [simp del]

definition Bytes :: "int \<Rightarrow> byte list" where
  "Bytes x = be_bytes (nat \<bar>x\<bar>)"

text \<open>\<open>(*big.Int).Mod\<close>: Euclidean modulus; division by zero panics.\<close>

definition Mod :: "int \<Rightarrow> int \<Rightarrow> error + int" where
  "Mod x m = (if m = 0 then Inl PanicDivisionByZero else Inr (x mod \<bar>m\<bar>))"

text \<open>Division of Go's \<open>int\<close> truncates towards zero.\<close>

definition quo :: "int \<Rightarrow> int \<Rightarrow> int" where
  "quo a b = sgn a * sgn b * (\<bar>a\<bar> div \<bar>b\<bar>)"

subsection \<open>The curve backend and the key types\<close>

text \<open>
  \<open>elliptic.CurveParams\<close> with the fields the library reads, and the
  \<open>elliptic.Curve\<close> interface.  The backend (package \<open>sm2\<close>) is
  not part of the library: its operations are fields of the record, and what
  the library needs from them is the contract \<open>curve_ok\<close> below.
\<close>

record CurveParams =
  P :: int
  N :: int
  Gx :: int
  Gy :: int
  BitSize :: int

record Curve =
  Params :: CurveParams
  IsOnCurve :: "int \<Rightarrow> int \<Rightarrow> bool"
  Add :: "int \<Rightarrow> int \<Rightarrow> int \<Rightarrow> int \<Rightarrow> int \<times> int"
  ScalarMult :: "int \<Rightarrow> int \<Rightarrow> byte list \<Rightarrow> int \<times> int"
  ScalarBaseMult :: "byte list \<Rightarrow> int \<times> int"

record PublicKey =
  Curve :: Curve
  X :: int
  Y :: int

record PrivateKey = PublicKey +
  D :: int

type_synonym CurvePoint = PublicKey

record CipherText =
  K :: CurvePoint
  C :: CurvePoint

type_synonym CipherVector = "CipherText list"

definition GetPubKey :: "PrivateKey \<Rightarrow> PublicKey" where
  "GetPubKey priv = PublicKey.truncate priv"

subsection \<open>The random source\<close>

text \<open>
  \<open>rand.Reader\<close> is the list of bytes it will still deliver.
  \<open>io.ReadFull\<close> fails when fewer bytes than asked for are left.
\<close>

definition ReadFull :: "byte list \<Rightarrow> nat \<Rightarrow> error + (byte list \<times> byte list)" where
  "ReadFull random n =
     (if length random < n then Inl EntropyFailure
      else Inr (take n random, drop n random))"

definition randFieldElement :: "Curve \<Rightarrow> byte list \<Rightarrow> error + (int \<times> byte list)" where
  "randFieldElement c random =
     (let params = Params c;
          len = quo (BitSize params) 8 + 8
      in if len < 0 then Inl PanicNegativeLen
         else case ReadFull random (nat len) of
                Inl err \<Rightarrow> Inl err
              | Inr (b, random') \<Rightarrow>
                  (let k = SetBytes b;
                       n = N params - 1
                   in case Mod k n of
                        Inl err \<Rightarrow> Inl err
                      | Inr k' \<Rightarrow> Inr (k' + 1, random')))"

subsection \<open>Key aggregation\<close>

fun CollPrivKey_loop :: "int \<Rightarrow> PrivateKey list \<Rightarrow> int \<Rightarrow> error + int" where
  "CollPrivKey_loop n [] collPriv = Inr collPriv"
| "CollPrivKey_loop n (priv # privs) collPriv =
     (let s = collPriv + D priv
      in if s \<ge> n
         then (case Mod s n of
                 Inl err \<Rightarrow> Inl err
               | Inr s' \<Rightarrow> CollPrivKey_loop n privs s')
         else CollPrivKey_loop n privs s)"

definition CollPrivKey :: "PrivateKey list \<Rightarrow> error + PrivateKey" where
  "CollPrivKey privs =
     (case privs of
        [] \<Rightarrow> Inl PanicIndexOutOfRange
      | collPrivKey # _ \<Rightarrow>
          (case CollPrivKey_loop (N (Params (Curve collPrivKey))) privs 0 of
             Inl err \<Rightarrow> Inl err
           | Inr collPriv \<Rightarrow>
               (let (x, y) = ScalarBaseMult (Curve collPrivKey) (Bytes collPriv)
                in Inr (collPrivKey\<lparr>D := collPriv, X := x, Y := y\<rparr>))))"

fun CollPubKey_loop :: "Curve \<Rightarrow> PublicKey \<Rightarrow> PublicKey list \<Rightarrow> PublicKey" where
  "CollPubKey_loop curve collPubKey [] = collPubKey"
| "CollPubKey_loop curve collPubKey (pub # pubs) =
     (let (x, y) = Add curve (X collPubKey) (Y collPubKey) (X pub) (Y pub)
      in CollPubKey_loop curve (collPubKey\<lparr>X := x, Y := y\<rparr>) pubs)"

definition CollPubKey :: "PublicKey list \<Rightarrow> error + PublicKey" where
  "CollPubKey pubs =
     (case pubs of
        [] \<Rightarrow> Inl PanicIndexOutOfRange
      | collPubKey # rest \<Rightarrow> Inr (CollPubKey_loop (Curve collPubKey) collPubKey rest))"

subsection \<open>Point ElGamal\<close>

definition PointEncrypt ::
  "PublicKey \<Rightarrow> CurvePoint \<Rightarrow> byte list \<Rightarrow> error + (CipherText \<times> byte list)" where
  "PointEncrypt pub pt random =
     (let curve = Curve pub
      in case randFieldElement curve random of
           Inl err \<Rightarrow> Inl err
         | Inr (r, random') \<Rightarrow>
             (let (kx, ky) = ScalarBaseMult curve (Bytes r);
                  (rKx, rKy) = ScalarMult curve (X pub) (Y pub) (Bytes r);
                  (cx, cy) = Add curve rKx rKy (X pt) (Y pt)
              in Inr (\<lparr>K = \<lparr>Curve = curve, X = kx, Y = ky\<rparr>,
                        C = \<lparr>Curve = curve, X = cx, Y = cy\<rparr>\<rparr>, random')))"

text \<open>The variant with proofs reduces the negated ordinate modulo \<open>P\<close>.\<close>

definition PointDecrypt :: "CipherText \<Rightarrow> PrivateKey \<Rightarrow> error + CurvePoint" where
  "PointDecrypt ct priv =
     (let curve = Curve priv;
          (rKx, rKy) = ScalarMult curve (X (K ct)) (Y (K ct)) (Bytes (D priv))
      in case Mod (- rKy) (P (Params curve)) of
           Inl err \<Rightarrow> Inl err
         | Inr negrKy \<Rightarrow>
             (let (x, y) = Add (Curve priv) (X (C ct)) (Y (C ct)) rKx negrKy
              in Inr \<lparr>Curve = curve, X = x, Y = y\<rparr>))"

text \<open>\<open>ppks.go\<close> passes the negated ordinate on as it is.\<close>

definition PointDecrypt_ppks :: "CipherText \<Rightarrow> PrivateKey \<Rightarrow> error + CurvePoint" where
  "PointDecrypt_ppks ct priv =
     (let curve = Curve priv;
          (rKx, rKy) = ScalarMult curve (X (K ct)) (Y (K ct)) (Bytes (D priv));
          negrKy = - rKy;
          (x, y) = Add (Curve priv) (X (C ct)) (Y (C ct)) rKx negrKy
      in Inr \<lparr>Curve = curve, X = x, Y = y\<rparr>)"

subsection \<open>Share computation\<close>

definition ShareCal ::
  "PublicKey \<Rightarrow> CurvePoint \<Rightarrow> PrivateKey \<Rightarrow> byte list
     \<Rightarrow> error + (CipherText \<times> int \<times> byte list)" where
  "ShareCal targetPubKey rB priv random =
     (let curve = Curve priv
      in case randFieldElement curve random of
           Inl err \<Rightarrow> Inl err
         | Inr (ri, random') \<Rightarrow>
             (let (kx, ky) = ScalarBaseMult curve (Bytes ri);
                  (rBkix, rBkiy) = ScalarMult curve (X rB) (Y rB) (Bytes (D priv))
              in case Mod (- rBkiy) (P (Params curve)) of
                   Inl err \<Rightarrow> Inl err
                 | Inr rBkiy' \<Rightarrow>
                     (let (riUx, riUy) =
                            ScalarMult curve (X targetPubKey) (Y targetPubKey) (Bytes ri);
                          (cx, cy) = Add curve rBkix rBkiy' riUx riUy
                      in Inr (\<lparr>K = \<lparr>Curve = Curve priv, X = kx, Y = ky\<rparr>,
                                C = \<lparr>Curve = Curve priv, X = cx, Y = cy\<rparr>\<rparr>,
                              ri, random'))))"

definition ShareCal_ppks ::
  "PublicKey \<Rightarrow> CurvePoint \<Rightarrow> PrivateKey \<Rightarrow> byte list
     \<Rightarrow> error + (CipherText \<times> byte list)" where
  "ShareCal_ppks targetPubKey rB priv random =
     (let curve = Curve priv
      in case randFieldElement curve random of
           Inl err \<Rightarrow> Inl err
         | Inr (ri, random') \<Rightarrow>
             (let (kx, ky) = ScalarBaseMult curve (Bytes ri);
                  (rBkix, rBkiy) = ScalarMult curve (X rB) (Y rB) (Bytes (D priv));
                  rBkiy' = - rBkiy;
                  (riUx, riUy) =
                    ScalarMult curve (X targetPubKey) (Y targetPubKey) (Bytes ri);
                  (cx, cy) = Add curve rBkix rBkiy' riUx riUy
              in Inr (\<lparr>K = \<lparr>Curve = Curve priv, X = kx, Y = ky\<rparr>,
                        C = \<lparr>Curve = Curve priv, X = cx, Y = cy\<rparr>\<rparr>,
                      random')))"

subsection \<open>Share aggregation and replacement\<close>

fun ShareReplace_loop :: "Curve \<Rightarrow> CipherText \<Rightarrow> CipherText list \<Rightarrow> CipherText" where
  "ShareReplace_loop curve sigma [] = sigma"
| "ShareReplace_loop curve sigma (share # shares) =
     (let (kx, ky) = Add curve (X (K sigma)) (Y (K sigma)) (X (K share)) (Y (K share));
          (cx, cy) = Add curve (X (C sigma)) (Y (C sigma)) (X (C share)) (Y (C share))
      in ShareReplace_loop curve
           (sigma\<lparr>K := (K sigma)\<lparr>X := kx, Y := ky\<rparr>,
                   C := (C sigma)\<lparr>X := cx, Y := cy\<rparr>\<rparr>) shares)"

definition ShareReplace :: "CipherVector \<Rightarrow> CipherText \<Rightarrow> error + CipherText" where
  "ShareReplace shares rct =
     (let curve = Curve (K rct)
      in case shares of
           [] \<Rightarrow> Inl PanicIndexOutOfRange
         | first # rest \<Rightarrow>
             (let sigma = ShareReplace_loop curve first rest;
                  (cx, cy) = Add curve (X (C sigma)) (Y (C sigma)) (X (C rct)) (Y (C rct))
              in Inr (sigma\<lparr>C := (C sigma)\<lparr>X := cx, Y := cy\<rparr>\<rparr>)))"

subsection \<open>The proof of a correct share\<close>

text \<open>
  The hash (package \<open>sm3\<close>, a 32-byte digest) is a parameter.  The
  transcript is the concatenation of the writes; the challenge is the first
  32 bytes of the digest read as a big-endian integer.
\<close>

definition challenge :: "(byte list \<Rightarrow> byte list) \<Rightarrow> int list \<Rightarrow> int" where
  "challenge sm3 ws = SetBytes (take 32 (sm3 (concat (map Bytes ws))))"

text \<open>The two responses: \<open>r = (v - (c * y mod N)) mod N\<close>.\<close>

definition response :: "int \<Rightarrow> int \<Rightarrow> int \<Rightarrow> int \<Rightarrow> error + int" where
  "response n c y v =
     (case Mod (c * y) n of
        Inl err \<Rightarrow> Inl err
      | Inr r \<Rightarrow> Mod (v - r) n)"

definition ProofGen ::
  "(byte list \<Rightarrow> byte list) \<Rightarrow> int \<Rightarrow> int \<Rightarrow> CurvePoint \<Rightarrow> CurvePoint \<Rightarrow> CurvePoint
     \<Rightarrow> CurvePoint \<Rightarrow> CurvePoint \<Rightarrow> CurvePoint \<Rightarrow> byte list
     \<Rightarrow> error + (int \<times> int \<times> int \<times> byte list)" where
  "ProofGen sm3 y1 y2 B Y1 Y2 A1 A2 A random =
     (let curve = Curve Y1
      in case randFieldElement curve random of
           Inl err \<Rightarrow> Inl err
         | Inr (v1, random1) \<Rightarrow>
        (case randFieldElement curve random1 of
           Inl err \<Rightarrow> Inl err
         | Inr (v2, random2) \<Rightarrow>
             (let (t1x, t1y) = ScalarMult curve (X B) (Y B) (Bytes v1);
                  (t2x, t2y) = ScalarMult curve (X B) (Y B) (Bytes v2);
                  (vA1x, vA1y) = ScalarMult curve (X A1) (Y A1) (Bytes v1);
                  (vA2x, vA2y) = ScalarMult curve (X A2) (Y A2) (Bytes v2);
                  (t3x, t3y) = Add curve vA1x vA1y vA2x vA2y;
                  c = challenge sm3
                        [X B, Y B, X Y1, Y Y1, X Y2, Y Y2, X A1, Y A1, X A2, Y A2,
                         X A, Y A, t1x, t1y, t2x, t2y, t3x, t3y]
              in case response (N (Params curve)) c y1 v1 of
                   Inl err \<Rightarrow> Inl err
                 | Inr r1 \<Rightarrow>
                     (case response (N (Params curve)) c y2 v2 of
                        Inl err \<Rightarrow> Inl err
                      | Inr r2 \<Rightarrow> Inr (c, r1, r2, random2)))))"

definition ProofGenNoB ::
  "(byte list \<Rightarrow> byte list) \<Rightarrow> int \<Rightarrow> int \<Rightarrow> CurvePoint \<Rightarrow> CurvePoint
     \<Rightarrow> CurvePoint \<Rightarrow> CurvePoint \<Rightarrow> CurvePoint \<Rightarrow> byte list
     \<Rightarrow> error + (int \<times> int \<times> int \<times> byte list)" where
  "ProofGenNoB sm3 y1 y2 Y1 Y2 A1 A2 A random =
     (let curve = Curve Y1
      in case randFieldElement curve random of
           Inl err \<Rightarrow> Inl err
         | Inr (v1, random1) \<Rightarrow>
        (case randFieldElement curve random1 of
           Inl err \<Rightarrow> Inl err
         | Inr (v2, random2) \<Rightarrow>
             (let (t1x, t1y) = ScalarBaseMult curve (Bytes v1);
                  (t2x, t2y) = ScalarBaseMult curve (Bytes v2);
                  (vA1x, vA1y) = ScalarMult curve (X A1) (Y A1) (Bytes v1);
                  (vA2x, vA2y) = ScalarMult curve (X A2) (Y A2) (Bytes v2);
                  (t3x, t3y) = Add curve vA1x vA1y vA2x vA2y;
                  c = challenge sm3
                        [Gx (Params curve), Gy (Params curve), X Y1, Y Y1, X Y2, Y Y2,
                         X A1, Y A1, X A2, Y A2, X A, Y A, t1x, t1y, t2x, t2y, t3x, t3y]
              in case response (N (Params curve)) c y1 v1 of
                   Inl err \<Rightarrow> Inl err
                 | Inr r1 \<Rightarrow>
                     (case response (N (Params curve)) c y2 v2 of
                        Inl err \<Rightarrow> Inl err
                      | Inr r2 \<Rightarrow> Inr (c, r1, r2, random2)))))"

definition ProofVrf ::
  "(byte list \<Rightarrow> byte list) \<Rightarrow> int \<Rightarrow> int \<Rightarrow> int \<Rightarrow> CurvePoint \<Rightarrow> CurvePoint
     \<Rightarrow> CurvePoint \<Rightarrow> CurvePoint \<Rightarrow> CurvePoint \<Rightarrow> CurvePoint \<Rightarrow> error + bool" where
  "ProofVrf sm3 c r1 r2 B Y1 Y2 A1 A2 A =
     (let curve = Curve Y1;
          (rB1x, rB1y) = ScalarMult curve (X B) (Y B) (Bytes r1);
          (cY1x, cY1y) = ScalarMult curve (X Y1) (Y Y1) (Bytes c);
          (t1x, t1y) = Add curve rB1x rB1y cY1x cY1y;
          (rB2x, rB2y) = ScalarMult curve (X B) (Y B) (Bytes r2);
          (cY2x, cY2y) = ScalarMult curve (X Y2) (Y Y2) (Bytes c);
          (t2x, t2y) = Add curve rB2x rB2y cY2x cY2y;
          (rA1x, rA1y) = ScalarMult curve (X A1) (Y A1) (Bytes r1);
          (rA2x, rA2y) = ScalarMult curve (X A2) (Y A2) (Bytes r2);
          (cAx, cAy) = ScalarMult curve (X A) (Y A) (Bytes c);
          (sx, sy) = Add curve rA1x rA1y rA2x rA2y;
          (t3x, t3y) = Add curve sx sy cAx cAy;
          c_new = challenge sm3
                    [X B, Y B, X Y1, Y Y1, X Y2, Y Y2, X A1, Y A1, X A2, Y A2,
                     X A, Y A, t1x, t1y, t2x, t2y, t3x, t3y]
      in if c = c_new then Inr True else Inr False)"

definition ProofVrfNoB ::
  "(byte list \<Rightarrow> byte list) \<Rightarrow> int \<Rightarrow> int \<Rightarrow> int \<Rightarrow> CurvePoint
     \<Rightarrow> CurvePoint \<Rightarrow> CurvePoint \<Rightarrow> CurvePoint \<Rightarrow> CurvePoint \<Rightarrow> error + bool" where
  "ProofVrfNoB sm3 c r1 r2 Y1 Y2 A1 A2 A =
     (let curve = Curve Y1;
          (r1Bx, r1By) = ScalarBaseMult curve (Bytes r1);
          (cY1x, cY1y) = ScalarMult curve (X Y1) (Y Y1) (Bytes c);
          (t1x, t1y) = Add curve r1Bx r1By cY1x cY1y;
          (rB2x, rB2y) = ScalarBaseMult curve (Bytes r2);
          (cY2x, cY2y) = ScalarMult curve (X Y2) (Y Y2) (Bytes c);
          (t2x, t2y) = Add curve rB2x rB2y cY2x cY2y;
          (rA1x, rA1y) = ScalarMult curve (X A1) (Y A1) (Bytes r1);
          (rA2x, rA2y) = ScalarMult curve (X A2) (Y A2) (Bytes r2);
          (cAx, cAy) = ScalarMult curve (X A) (Y A) (Bytes c);
          (sx, sy) = Add curve rA1x rA1y rA2x rA2y;
          (t3x, t3y) = Add curve sx sy cAx cAy;
          c_new = challenge sm3
                    [Gx (Params curve), Gy (Params curve), X Y1, Y Y1, X Y2, Y Y2,
                     X A1, Y A1, X A2, Y A2, X A, Y A, t1x, t1y, t2x, t2y, t3x, t3y]
      in if c = c_new then Inr True else Inr False)"

text \<open>The second public point of a share proof: \<open>rB\<close> with its ordinate negated modulo \<open>P\<close>.\<close>

definition negated :: "Curve \<Rightarrow> CurvePoint \<Rightarrow> error + CurvePoint" where
  "negated curve rB =
     (case Mod (- Y rB) (P (Params curve)) of
        Inl err \<Rightarrow> Inl err
      | Inr y \<Rightarrow> Inr \<lparr>Curve = Curve rB, X = X rB, Y = y\<rparr>)"

definition ShareProofGen ::
  "(byte list \<Rightarrow> byte list) \<Rightarrow> int \<Rightarrow> PrivateKey \<Rightarrow> CipherText \<Rightarrow> PublicKey \<Rightarrow> CurvePoint
     \<Rightarrow> byte list \<Rightarrow> error + (int \<times> int \<times> int \<times> byte list)" where
  "ShareProofGen sm3 ri priv share targetPubKey rB random =
     (let curve = Curve priv;
          B = \<lparr>Curve = curve, X = Gx (Params curve), Y = Gy (Params curve)\<rparr>
      in case negated curve rB of
           Inl err \<Rightarrow> Inl err
         | Inr A2 \<Rightarrow>
             ProofGen sm3 ri (D priv) B (K share) (GetPubKey priv) targetPubKey A2
               (C share) random)"

definition ShareProofGenNoB ::
  "(byte list \<Rightarrow> byte list) \<Rightarrow> int \<Rightarrow> PrivateKey \<Rightarrow> CipherText \<Rightarrow> PublicKey \<Rightarrow> CurvePoint
     \<Rightarrow> byte list \<Rightarrow> error + (int \<times> int \<times> int \<times> byte list)" where
  "ShareProofGenNoB sm3 ri priv share targetPubKey rB random =
     (let curve = Curve priv
      in case negated curve rB of
           Inl err \<Rightarrow> Inl err
         | Inr A2 \<Rightarrow>
             ProofGenNoB sm3 ri (D priv) (K share) (GetPubKey priv) targetPubKey A2
               (C share) random)"

definition ShareProofVry ::
  "(byte list \<Rightarrow> byte list) \<Rightarrow> int \<Rightarrow> int \<Rightarrow> int \<Rightarrow> CipherText \<Rightarrow> PublicKey \<Rightarrow> PublicKey
     \<Rightarrow> CurvePoint \<Rightarrow> error + bool" where
  "ShareProofVry sm3 c r1 r2 share nodePubKey targetPubKey rB =
     (let curve = Curve targetPubKey;
          B = \<lparr>Curve = curve, X = Gx (Params curve), Y = Gy (Params curve)\<rparr>
      in case negated curve rB of
           Inl err \<Rightarrow> Inl err
         | Inr A2 \<Rightarrow>
             ProofVrf sm3 c r1 r2 B (K share) nodePubKey targetPubKey A2 (C share))"

definition ShareProofVryNoB ::
  "(byte list \<Rightarrow> byte list) \<Rightarrow> int \<Rightarrow> int \<Rightarrow> int \<Rightarrow> CipherText \<Rightarrow> PublicKey \<Rightarrow> PublicKey
     \<Rightarrow> CurvePoint \<Rightarrow> error + bool" where
  "ShareProofVryNoB sm3 c r1 r2 share nodePubKey targetPubKey rB =
     (let curve = Curve targetPubKey
      in case negated curve rB of
           Inl err \<Rightarrow> Inl err
         | Inr A2 \<Rightarrow>
             ProofVrfNoB sm3 c r1 r2 (K share) nodePubKey targetPubKey A2 (C share))"

subsection \<open>What the library needs from the backend\<close>

text \<open>
  Points are pairs of coordinates; \<open>(0, 0)\<close> is the conventional point at
  infinity of the \<open>elliptic.Curve\<close> interface, for which \<open>IsOnCurve\<close>
  is false.
\<close>

type_synonym point = "int \<times> int"

definition coords :: "'a PublicKey_scheme \<Rightarrow> point" where
  "coords p = (X p, Y p)"

definition valid :: "Curve \<Rightarrow> point \<Rightarrow> bool" where
  "valid c p \<longleftrightarrow> p = (0, 0) \<or> IsOnCurve c (fst p) (snd p)"

definition add :: "Curve \<Rightarrow> point \<Rightarrow> point \<Rightarrow> point" where
  "add c p q = Add c (fst p) (snd p) (fst q) (snd q)"

definition neg :: "Curve \<Rightarrow> point \<Rightarrow> point" where
  "neg c p = (fst p, (- snd p) mod P (Params c))"

fun mul :: "Curve \<Rightarrow> nat \<Rightarrow> point \<Rightarrow> point" where
  "mul c 0 p = (0, 0)"
| "mul c (Suc k) p = add c (mul c k p) p"

definition base :: "Curve \<Rightarrow> point" where
  "base c = (Gx (Params c), Gy (Params c))"

text \<open>
  The valid points form a commutative group under \<open>Add\<close> with neutral
  element \<open>(0, 0)\<close>; negating the ordinate modulo \<open>P\<close> gives the inverse;
  every point has an order dividing \<open>N\<close>.
\<close>

definition group_ok :: "Curve \<Rightarrow> bool" where
  "group_ok c \<longleftrightarrow>
     0 < P (Params c) \<and> 1 < N (Params c) \<and>
     valid c (base c) \<and>
     (\<forall>p q. valid c p \<longrightarrow> valid c q \<longrightarrow> valid c (add c p q)) \<and>
     (\<forall>p q r. valid c p \<longrightarrow> valid c q \<longrightarrow> valid c r \<longrightarrow>
        add c (add c p q) r = add c p (add c q r)) \<and>
     (\<forall>p q. valid c p \<longrightarrow> valid c q \<longrightarrow> add c p q = add c q p) \<and>
     (\<forall>p. valid c p \<longrightarrow> add c p (0, 0) = p) \<and>
     (\<forall>p. valid c p \<longrightarrow> valid c (neg c p) \<and> add c p (neg c p) = (0, 0)) \<and>
     (\<forall>p. valid c p \<longrightarrow> mul c (nat (N (Params c))) p = (0, 0))"

text \<open>\<open>ScalarMult\<close> reads its scalar as a big-endian number and adds the point that often.\<close>

definition scalar_mult_ok :: "Curve \<Rightarrow> bool" where
  "scalar_mult_ok c \<longleftrightarrow>
     (\<forall>p k. valid c p \<longrightarrow> ScalarMult c (fst p) (snd p) k = mul c (nat (SetBytes k)) p)"

text \<open>\<open>ScalarBaseMult\<close> is \<open>ScalarMult\<close> at the generator.\<close>

definition base_mult_ok :: "Curve \<Rightarrow> bool" where
  "base_mult_ok c \<longleftrightarrow>
     (\<forall>k. ScalarBaseMult c k = ScalarMult c (Gx (Params c)) (Gy (Params c)) k)"

definition curve_ok :: "Curve \<Rightarrow> bool" where
  "curve_ok c \<longleftrightarrow>
     0 \<le> BitSize (Params c) \<and> group_ok c \<and> scalar_mult_ok c \<and> base_mult_ok c"

text \<open>\<open>Add\<close> takes its arguments modulo \<open>P\<close> (needed only by \<open>ppks.go\<close>).\<close>

definition add_reduces :: "Curve \<Rightarrow> bool" where
  "add_reduces c \<longleftrightarrow>
     (\<forall>x1 y1 x2 y2. Add c x1 y1 x2 y2 =
        Add c (x1 mod P (Params c)) (y1 mod P (Params c))
              (x2 mod P (Params c)) (y2 mod P (Params c)))"

text \<open>Well-formed points and keys of a curve.\<close>

definition on_curve :: "Curve \<Rightarrow> 'a PublicKey_scheme \<Rightarrow> bool" where
  "on_curve c p \<longleftrightarrow> Curve p = c \<and> valid c (coords p)"

definition key_ok :: "Curve \<Rightarrow> PrivateKey \<Rightarrow> bool" where
  "key_ok c priv \<longleftrightarrow>
     Curve priv = c \<and> 1 \<le> D priv \<and> D priv < N (Params c) \<and>
     coords priv = ScalarBaseMult c (Bytes (D priv))"

text \<open>The sum of a list of points, for stating what the aggregation loops compute.\<close>

fun psum :: "Curve \<Rightarrow> point list \<Rightarrow> point" where
  "psum c [] = (0, 0)"
| "psum c (p # ps) = add c p (psum c ps)"

text \<open>A well-formed share: both points lie on the curve.\<close>

definition share_ok :: "Curve \<Rightarrow> CipherText \<Rightarrow> bool" where
  "share_ok c s \<longleftrightarrow> on_curve c (K s) \<and> on_curve c (C s)"

subsection \<open>A small backend\<close>

text \<open>
  The curve \<open>y\<^sup>2 = x\<^sup>3 + 2x + 1\<close> over the field of 5 elements: six
  affine points and the point at infinity, a group of prime order 7
  generated by \<open>(0, 1)\<close>.
\<close>

definition tiny_IsOnCurve :: "int \<Rightarrow> int \<Rightarrow> bool" where
  "tiny_IsOnCurve x y \<longleftrightarrow>
     0 \<le> x \<and> x < 5 \<and> 0 \<le> y \<and> y < 5 \<and> (y * y) mod 5 = (x * x * x + 2 * x + 1) mod 5"

text \<open>
  The group is cyclic, so its addition is given by the table of the
  multiples of the generator: \<open>tiny_exp k\<close> is the \<open>k\<close>-fold generator and
  \<open>tiny_log\<close> its inverse.  Coordinates are taken modulo 5.
\<close>

definition tiny_exp :: "nat \<Rightarrow> int \<times> int" where
  "tiny_exp k = [(0, 0), (0, 1), (1, 3), (3, 3), (3, 2), (1, 2), (0, 4)] ! (k mod 7)"

definition tiny_log :: "int \<Rightarrow> int \<Rightarrow> nat" where
  "tiny_log u v =
     (let x = u mod 5; y = v mod 5
      in if x = 0 \<and> y = 1 then 1
         else if x = 1 \<and> y = 3 then 2
         else if x = 3 \<and> y = 3 then 3
         else if x = 3 \<and> y = 2 then 4
         else if x = 1 \<and> y = 2 then 5
         else if x = 0 \<and> y = 4 then 6
         else 0)"

definition tiny_Add :: "int \<Rightarrow> int \<Rightarrow> int \<Rightarrow> int \<Rightarrow> int \<times> int" where
  "tiny_Add u1 v1 u2 v2 = tiny_exp (tiny_log u1 v1 + tiny_log u2 v2)"

definition tiny_ScalarMult :: "int \<Rightarrow> int \<Rightarrow> byte list \<Rightarrow> int \<times> int" where
  "tiny_ScalarMult x y k = tiny_exp (nat (SetBytes k mod 7) * tiny_log x y)"

definition tiny :: Curve where
  "tiny = \<lparr>Params = \<lparr>P = 5, N = 7, Gx = 0, Gy = 1, BitSize = 3\<rparr>,
           IsOnCurve = tiny_IsOnCurve,
           Add = tiny_Add,
           ScalarMult = tiny_ScalarMult,
           ScalarBaseMult = tiny_ScalarMult 0 1\<rparr>"

text \<open>A 32-byte digest for the examples: one checksum byte, repeated.\<close>

definition tiny_sm3 :: "byte list \<Rightarrow> byte list" where
  "tiny_sm3 m = replicate 32 (foldl (\<lambda>a b. 31 * a + b + 7) 0 m)"

text \<open>Points and keys of the small backend.\<close>

definition tiny_point :: "int \<Rightarrow> int \<Rightarrow> CurvePoint" where
  "tiny_point x y = \<lparr>Curve = tiny, X = x, Y = y\<rparr>"

definition tiny_key :: "int \<Rightarrow> PrivateKey" where
  "tiny_key d =
     \<lparr>Curve = tiny, X = fst (tiny_exp (nat d)), Y = snd (tiny_exp (nat d)), D = d\<rparr>"

subsection \<open>The library on a store of big integers\<close>

text \<open>
  For the question which objects a call writes to, a \<open>*big.Int\<close> is an
  address into a store of integers.  \<open>new(big.Int)\<close> extends the store;
  a method such as \<open>z.Neg(x)\<close> overwrites the object at \<open>z\<close>.  The
  structs hold addresses.  The backend reads its arguments and returns
  newly allocated integers, as the implementations of \<open>elliptic.Curve\<close>
  do; its curve parameters and the package variable \<open>one\<close> are objects
  of the store as well.  The functions below follow the source statement by
  statement and return the store next to their result, also when they fail.
\<close>

type_synonym addr = nat

type_synonym store = "int list"

record CurveRef =
  Ops :: Curve
  P_at :: addr
  N_at :: addr
  Gx_at :: addr
  Gy_at :: addr

record PublicKeyRef =
  Curve_of :: CurveRef
  X_at :: addr
  Y_at :: addr

record PrivateKeyRef = PublicKeyRef +
  D_at :: addr

type_synonym CurvePointRef = PublicKeyRef

record CipherTextRef =
  K_of :: CurvePointRef
  C_of :: CurvePointRef

definition new_Int :: "int \<Rightarrow> store \<Rightarrow> addr \<times> store" where
  "new_Int v h = (length h, h @ [v])"

text \<open>\<open>z.Neg(x)\<close>, \<open>z.Mod(x, m)\<close>, \<open>z.Add(x, y)\<close>, \<open>z.Sub(x, y)\<close> on the store.\<close>

definition Neg_at :: "addr \<Rightarrow> addr \<Rightarrow> store \<Rightarrow> store" where
  "Neg_at z x h = h[z := - (h ! x)]"

definition Mod_at :: "addr \<Rightarrow> addr \<Rightarrow> addr \<Rightarrow> store \<Rightarrow> (error + unit) \<times> store" where
  "Mod_at z x m h =
     (case Mod (h ! x) (h ! m) of
        Inl err \<Rightarrow> (Inl err, h)
      | Inr v \<Rightarrow> (Inr (), h[z := v]))"

definition Add_at :: "addr \<Rightarrow> addr \<Rightarrow> addr \<Rightarrow> store \<Rightarrow> store" where
  "Add_at z x y h = h[z := h ! x + h ! y]"

definition Sub_at :: "addr \<Rightarrow> addr \<Rightarrow> addr \<Rightarrow> store \<Rightarrow> store" where
  "Sub_at z x y h = h[z := h ! x - h ! y]"

text \<open>The backend: results in two new objects.\<close>

definition alloc_point :: "int \<times> int \<Rightarrow> store \<Rightarrow> (addr \<times> addr) \<times> store" where
  "alloc_point p h = ((length h, Suc (length h)), h @ [fst p, snd p])"

definition Add_h ::
  "CurveRef \<Rightarrow> addr \<Rightarrow> addr \<Rightarrow> addr \<Rightarrow> addr \<Rightarrow> store \<Rightarrow> (addr \<times> addr) \<times> store" where
  "Add_h c x1 y1 x2 y2 h = alloc_point (Add (Ops c) (h ! x1) (h ! y1) (h ! x2) (h ! y2)) h"

definition ScalarMult_h ::
  "CurveRef \<Rightarrow> addr \<Rightarrow> addr \<Rightarrow> byte list \<Rightarrow> store \<Rightarrow> (addr \<times> addr) \<times> store" where
  "ScalarMult_h c x y k h = alloc_point (ScalarMult (Ops c) (h ! x) (h ! y) k) h"

definition ScalarBaseMult_h ::
  "CurveRef \<Rightarrow> byte list \<Rightarrow> store \<Rightarrow> (addr \<times> addr) \<times> store" where
  "ScalarBaseMult_h c k h = alloc_point (ScalarBaseMult (Ops c) k) h"

definition randFieldElement_h ::
  "addr \<Rightarrow> CurveRef \<Rightarrow> byte list \<Rightarrow> store \<Rightarrow> (error + (addr \<times> byte list)) \<times> store" where
  "randFieldElement_h one c random h =
     (let len = quo (BitSize (Params (Ops c))) 8 + 8
      in if len < 0 then (Inl PanicNegativeLen, h)
         else case ReadFull random (nat len) of
                Inl err \<Rightarrow> (Inl err, h)
              | Inr (b, random') \<Rightarrow>
                  (let (k, h1) = new_Int (SetBytes b) h;
                       (n, h2) = new_Int (h1 ! N_at c - h1 ! one) h1
                   in case Mod_at k k n h2 of
                        (Inl err, h3) \<Rightarrow> (Inl err, h3)
                      | (Inr _, h3) \<Rightarrow> (Inr (k, random'), Add_at k k one h3)))"

definition PointEncrypt_h ::
  "addr \<Rightarrow> PublicKeyRef \<Rightarrow> CurvePointRef \<Rightarrow> byte list \<Rightarrow> store
     \<Rightarrow> (error + (CipherTextRef \<times> byte list)) \<times> store" where
  "PointEncrypt_h one pub pt random h =
     (let curve = Curve_of pub
      in case randFieldElement_h one curve random h of
           (Inl err, h1) \<Rightarrow> (Inl err, h1)
         | (Inr (r, random'), h1) \<Rightarrow>
             (let ((kx, ky), h2) = ScalarBaseMult_h curve (Bytes (h1 ! r)) h1;
                  ((rKx, rKy), h3) = ScalarMult_h curve (X_at pub) (Y_at pub) (Bytes (h2 ! r)) h2;
                  ((cx, cy), h4) = Add_h curve rKx rKy (X_at pt) (Y_at pt) h3
              in (Inr (\<lparr>K_of = \<lparr>Curve_of = curve, X_at = kx, Y_at = ky\<rparr>,
                         C_of = \<lparr>Curve_of = curve, X_at = cx, Y_at = cy\<rparr>\<rparr>, random'), h4)))"

definition PointDecrypt_h ::
  "CipherTextRef \<Rightarrow> PrivateKeyRef \<Rightarrow> store \<Rightarrow> (error + CurvePointRef) \<times> store" where
  "PointDecrypt_h ct priv h =
     (let curve = Curve_of priv;
          ((rKx, rKy), h1) =
            ScalarMult_h curve (X_at (K_of ct)) (Y_at (K_of ct)) (Bytes (h ! D_at priv)) h;
          (negrKy, h2) = new_Int (- (h1 ! rKy)) h1
      in case Mod_at negrKy negrKy (P_at curve) h2 of
           (Inl err, h3) \<Rightarrow> (Inl err, h3)
         | (Inr _, h3) \<Rightarrow>
             (let ((x, y), h4) =
                    Add_h (Curve_of priv) (X_at (C_of ct)) (Y_at (C_of ct)) rKx negrKy h3
              in (Inr \<lparr>Curve_of = curve, X_at = x, Y_at = y\<rparr>, h4)))"

text \<open>\<open>ppks.go\<close>: \<open>negrKy := rKy.Neg(rKy)\<close> overwrites the result of the backend.\<close>

definition PointDecrypt_ppks_h ::
  "CipherTextRef \<Rightarrow> PrivateKeyRef \<Rightarrow> store \<Rightarrow> (error + CurvePointRef) \<times> store" where
  "PointDecrypt_ppks_h ct priv h =
     (let curve = Curve_of priv;
          ((rKx, rKy), h1) =
            ScalarMult_h curve (X_at (K_of ct)) (Y_at (K_of ct)) (Bytes (h ! D_at priv)) h;
          h2 = Neg_at rKy rKy h1;
          negrKy = rKy;
          ((x, y), h3) =
            Add_h (Curve_of priv) (X_at (C_of ct)) (Y_at (C_of ct)) rKx negrKy h2
      in (Inr \<lparr>Curve_of = curve, X_at = x, Y_at = y\<rparr>, h3))"

definition ShareCal_h ::
  "addr \<Rightarrow> PublicKeyRef \<Rightarrow> CurvePointRef \<Rightarrow> PrivateKeyRef \<Rightarrow> byte list \<Rightarrow> store
     \<Rightarrow> (error + (CipherTextRef \<times> addr \<times> byte list)) \<times> store" where
  "ShareCal_h one targetPubKey rB priv random h =
     (let curve = Curve_of priv
      in case randFieldElement_h one curve random h of
           (Inl err, h1) \<Rightarrow> (Inl err, h1)
         | (Inr (ri, random'), h1) \<Rightarrow>
             (let ((kx, ky), h2) = ScalarBaseMult_h curve (Bytes (h1 ! ri)) h1;
                  ((rBkix, rBkiy), h3) =
                    ScalarMult_h curve (X_at rB) (Y_at rB) (Bytes (h2 ! D_at priv)) h2;
                  h4 = Neg_at rBkiy rBkiy h3
              in case Mod_at rBkiy rBkiy (P_at curve) h4 of
                   (Inl err, h5) \<Rightarrow> (Inl err, h5)
                 | (Inr _, h5) \<Rightarrow>
                     (let ((riUx, riUy), h6) =
                            ScalarMult_h curve (X_at targetPubKey) (Y_at targetPubKey)
                              (Bytes (h5 ! ri)) h5;
                          ((cx, cy), h7) = Add_h curve rBkix rBkiy riUx riUy h6
                      in (Inr (\<lparr>K_of = \<lparr>Curve_of = Curve_of priv, X_at = kx, Y_at = ky\<rparr>,
                                 C_of = \<lparr>Curve_of = Curve_of priv, X_at = cx, Y_at = cy\<rparr>\<rparr>,
                               ri, random'), h7))))"

definition ShareCal_ppks_h ::
  "addr \<Rightarrow> PublicKeyRef \<Rightarrow> CurvePointRef \<Rightarrow> PrivateKeyRef \<Rightarrow> byte list \<Rightarrow> store
     \<Rightarrow> (error + (CipherTextRef \<times> byte list)) \<times> store" where
  "ShareCal_ppks_h one targetPubKey rB priv random h =
     (let curve = Curve_of priv
      in case randFieldElement_h one curve random h of
           (Inl err, h1) \<Rightarrow> (Inl err, h1)
         | (Inr (ri, random'), h1) \<Rightarrow>
             (let ((kx, ky), h2) = ScalarBaseMult_h curve (Bytes (h1 ! ri)) h1;
                  ((rBkix, rBkiy), h3) =
                    ScalarMult_h curve (X_at rB) (Y_at rB) (Bytes (h2 ! D_at priv)) h2;
                  h4 = Neg_at rBkiy rBkiy h3;
                  ((riUx, riUy), h5) =
                    ScalarMult_h curve (X_at targetPubKey) (Y_at targetPubKey)
                      (Bytes (h4 ! ri)) h4;
                  ((cx, cy), h6) = Add_h curve rBkix rBkiy riUx riUy h5
              in (Inr (\<lparr>K_of = \<lparr>Curve_of = Curve_of priv, X_at = kx, Y_at = ky\<rparr>,
                         C_of = \<lparr>Curve_of = Curve_of priv, X_at = cx, Y_at = cy\<rparr>\<rparr>,
                       random'), h6)))"

text \<open>
  \<open>sigma := (*shares)[0]\<close> copies the struct: \<open>sigma\<close> holds the
  addresses of the first share, and the loop assigns new addresses to the
  fields of the copy.
\<close>

fun ShareReplace_loop_h ::
  "CurveRef \<Rightarrow> CipherTextRef \<Rightarrow> CipherTextRef list \<Rightarrow> store \<Rightarrow> CipherTextRef \<times> store" where
  "ShareReplace_loop_h curve sigma [] h = (sigma, h)"
| "ShareReplace_loop_h curve sigma (share # shares) h =
     (let ((kx, ky), h1) =
            Add_h curve (X_at (K_of sigma)) (Y_at (K_of sigma))
              (X_at (K_of share)) (Y_at (K_of share)) h;
          ((cx, cy), h2) =
            Add_h curve (X_at (C_of sigma)) (Y_at (C_of sigma))
              (X_at (C_of share)) (Y_at (C_of share)) h1
      in ShareReplace_loop_h curve
           (sigma\<lparr>K_of := (K_of sigma)\<lparr>X_at := kx, Y_at := ky\<rparr>,
                   C_of := (C_of sigma)\<lparr>X_at := cx, Y_at := cy\<rparr>\<rparr>) shares h2)"

definition ShareReplace_h ::
  "CipherTextRef list \<Rightarrow> CipherTextRef \<Rightarrow> store \<Rightarrow> (error + CipherTextRef) \<times> store" where
  "ShareReplace_h shares rct h =
     (let curve = Curve_of (K_of rct)
      in case shares of
           [] \<Rightarrow> (Inl PanicIndexOutOfRange, h)
         | first # rest \<Rightarrow>
             (let (sigma, h1) = ShareReplace_loop_h curve first rest h;
                  ((cx, cy), h2) =
                    Add_h curve (X_at (C_of sigma)) (Y_at (C_of sigma))
                      (X_at (C_of rct)) (Y_at (C_of rct)) h1
              in (Inr (sigma\<lparr>C_of := (C_of sigma)\<lparr>X_at := cx, Y_at := cy\<rparr>\<rparr>), h2)))"

text \<open>The transcript reads the eighteen coordinates; the challenge is a new object.\<close>

definition challenge_h ::
  "(byte list \<Rightarrow> byte list) \<Rightarrow> addr list \<Rightarrow> store \<Rightarrow> addr \<times> store" where
  "challenge_h sm3 ws h = new_Int (challenge sm3 (map (\<lambda>a. h ! a) ws)) h"

text \<open>
  \<open>r1 := new(big.Int).Mul(c, y1); r1.Mod(r1, N); r1 = new(big.Int).Sub(v1, r1);
  r1.Mod(r1, N)\<close>.
\<close>

definition response1_h ::
  "addr \<Rightarrow> addr \<Rightarrow> addr \<Rightarrow> addr \<Rightarrow> store \<Rightarrow> (error + addr) \<times> store" where
  "response1_h n c y v h =
     (let (r, h1) = new_Int (h ! c * h ! y) h
      in case Mod_at r r n h1 of
           (Inl err, h2) \<Rightarrow> (Inl err, h2)
         | (Inr _, h2) \<Rightarrow>
             (let (r', h3) = new_Int (h2 ! v - h2 ! r) h2
              in case Mod_at r' r' n h3 of
                   (Inl err, h4) \<Rightarrow> (Inl err, h4)
                 | (Inr _, h4) \<Rightarrow> (Inr r', h4)))"

text \<open>
  \<open>r2 := new(big.Int).Mul(c, y2); r2.Mod(r2, N); r2.Sub(v2, r2); r2.Mod(r2, N)\<close>.
\<close>

definition response2_h ::
  "addr \<Rightarrow> addr \<Rightarrow> addr \<Rightarrow> addr \<Rightarrow> store \<Rightarrow> (error + addr) \<times> store" where
  "response2_h n c y v h =
     (let (r, h1) = new_Int (h ! c * h ! y) h
      in case Mod_at r r n h1 of
           (Inl err, h2) \<Rightarrow> (Inl err, h2)
         | (Inr _, h2) \<Rightarrow>
             (case Mod_at r r n (Sub_at r v r h2) of
                (Inl err, h4) \<Rightarrow> (Inl err, h4)
              | (Inr _, h4) \<Rightarrow> (Inr r, h4)))"

definition ProofGen_h ::
  "addr \<Rightarrow> (byte list \<Rightarrow> byte list) \<Rightarrow> addr \<Rightarrow> addr \<Rightarrow> CurvePointRef \<Rightarrow> CurvePointRef
     \<Rightarrow> CurvePointRef \<Rightarrow> CurvePointRef \<Rightarrow> CurvePointRef \<Rightarrow> CurvePointRef \<Rightarrow> byte list
     \<Rightarrow> store \<Rightarrow> (error + (addr \<times> addr \<times> addr \<times> byte list)) \<times> store" where
  "ProofGen_h one sm3 y1 y2 B Y1 Y2 A1 A2 A random h =
     (let curve = Curve_of Y1
      in case randFieldElement_h one curve random h of
           (Inl err, h1) \<Rightarrow> (Inl err, h1)
         | (Inr (v1, random1), h1) \<Rightarrow>
        (case randFieldElement_h one curve random1 h1 of
           (Inl err, h2) \<Rightarrow> (Inl err, h2)
         | (Inr (v2, random2), h2) \<Rightarrow>
             (let ((t1x, t1y), h3) = ScalarMult_h curve (X_at B) (Y_at B) (Bytes (h2 ! v1)) h2;
                  ((t2x, t2y), h4) = ScalarMult_h curve (X_at B) (Y_at B) (Bytes (h3 ! v2)) h3;
                  ((vA1x, vA1y), h5) =
                    ScalarMult_h curve (X_at A1) (Y_at A1) (Bytes (h4 ! v1)) h4;
                  ((vA2x, vA2y), h6) =
                    ScalarMult_h curve (X_at A2) (Y_at A2) (Bytes (h5 ! v2)) h5;
                  ((t3x, t3y), h7) = Add_h curve vA1x vA1y vA2x vA2y h6;
                  (c, h8) = challenge_h sm3
                        [X_at B, Y_at B, X_at Y1, Y_at Y1, X_at Y2, Y_at Y2, X_at A1, Y_at A1,
                         X_at A2, Y_at A2, X_at A, Y_at A, t1x, t1y, t2x, t2y, t3x, t3y] h7
              in case response1_h (N_at curve) c y1 v1 h8 of
                   (Inl err, h9) \<Rightarrow> (Inl err, h9)
                 | (Inr r1, h9) \<Rightarrow>
                     (case response2_h (N_at curve) c y2 v2 h9 of
                        (Inl err, h10) \<Rightarrow> (Inl err, h10)
                      | (Inr r2, h10) \<Rightarrow> (Inr (c, r1, r2, random2), h10)))))"

definition ProofVrf_h ::
  "(byte list \<Rightarrow> byte list) \<Rightarrow> addr \<Rightarrow> addr \<Rightarrow> addr \<Rightarrow> CurvePointRef \<Rightarrow> CurvePointRef
     \<Rightarrow> CurvePointRef \<Rightarrow> CurvePointRef \<Rightarrow> CurvePointRef \<Rightarrow> CurvePointRef
     \<Rightarrow> store \<Rightarrow> (error + bool) \<times> store" where
  "ProofVrf_h sm3 c r1 r2 B Y1 Y2 A1 A2 A h =
     (let curve = Curve_of Y1;
          ((rB1x, rB1y), h1) = ScalarMult_h curve (X_at B) (Y_at B) (Bytes (h ! r1)) h;
          ((cY1x, cY1y), h2) = ScalarMult_h curve (X_at Y1) (Y_at Y1) (Bytes (h1 ! c)) h1;
          ((t1x, t1y), h3) = Add_h curve rB1x rB1y cY1x cY1y h2;
          ((rB2x, rB2y), h4) = ScalarMult_h curve (X_at B) (Y_at B) (Bytes (h3 ! r2)) h3;
          ((cY2x, cY2y), h5) = ScalarMult_h curve (X_at Y2) (Y_at Y2) (Bytes (h4 ! c)) h4;
          ((t2x, t2y), h6) = Add_h curve rB2x rB2y cY2x cY2y h5;
          ((rA1x, rA1y), h7) = ScalarMult_h curve (X_at A1) (Y_at A1) (Bytes (h6 ! r1)) h6;
          ((rA2x, rA2y), h8) = ScalarMult_h curve (X_at A2) (Y_at A2) (Bytes (h7 ! r2)) h7;
          ((cAx, cAy), h9) = ScalarMult_h curve (X_at A) (Y_at A) (Bytes (h8 ! c)) h8;
          ((sx, sy), h10) = Add_h curve rA1x rA1y rA2x rA2y h9;
          ((t3x, t3y), h11) = Add_h curve sx sy cAx cAy h10;
          (c_new, h12) = challenge_h sm3
                    [X_at B, Y_at B, X_at Y1, Y_at Y1, X_at Y2, Y_at Y2, X_at A1, Y_at A1,
                     X_at A2, Y_at A2, X_at A, Y_at A, t1x, t1y, t2x, t2y, t3x, t3y] h11
      in (if h12 ! c = h12 ! c_new then Inr True else Inr False, h12))"

text \<open>
  \<open>A2.X = new(big.Int).Set(rB.X); A2.Y = new(big.Int).Set(rB.Y); A2.Y.Neg(A2.Y);
  A2.Y.Mod(A2.Y, curve.Params().P)\<close>.
\<close>

definition negated_h ::
  "CurveRef \<Rightarrow> CurvePointRef \<Rightarrow> store \<Rightarrow> (error + CurvePointRef) \<times> store" where
  "negated_h curve rB h =
     (let (x, h1) = new_Int (h ! X_at rB) h;
          (y, h2) = new_Int (h1 ! Y_at rB) h1;
          h3 = Neg_at y y h2
      in case Mod_at y y (P_at curve) h3 of
           (Inl err, h4) \<Rightarrow> (Inl err, h4)
         | (Inr _, h4) \<Rightarrow> (Inr \<lparr>Curve_of = Curve_of rB, X_at = x, Y_at = y\<rparr>, h4))"

definition ShareProofGen_h ::
  "addr \<Rightarrow> (byte list \<Rightarrow> byte list) \<Rightarrow> addr \<Rightarrow> PrivateKeyRef \<Rightarrow> CipherTextRef \<Rightarrow> PublicKeyRef
     \<Rightarrow> CurvePointRef \<Rightarrow> byte list \<Rightarrow> store
     \<Rightarrow> (error + (addr \<times> addr \<times> addr \<times> byte list)) \<times> store" where
  "ShareProofGen_h one sm3 ri priv share targetPubKey rB random h =
     (let curve = Curve_of priv;
          B = \<lparr>Curve_of = curve, X_at = Gx_at curve, Y_at = Gy_at curve\<rparr>
      in case negated_h curve rB h of
           (Inl err, h1) \<Rightarrow> (Inl err, h1)
         | (Inr A2, h1) \<Rightarrow>
             ProofGen_h one sm3 ri (D_at priv) B (K_of share) (PublicKeyRef.truncate priv)
               targetPubKey A2 (C_of share) random h1)"

definition ShareProofVry_h ::
  "(byte list \<Rightarrow> byte list) \<Rightarrow> addr \<Rightarrow> addr \<Rightarrow> addr \<Rightarrow> CipherTextRef \<Rightarrow> PublicKeyRef
     \<Rightarrow> PublicKeyRef \<Rightarrow> CurvePointRef \<Rightarrow> store \<Rightarrow> (error + bool) \<times> store" where
  "ShareProofVry_h sm3 c r1 r2 share nodePubKey targetPubKey rB h =
     (let curve = Curve_of targetPubKey;
          B = \<lparr>Curve_of = curve, X_at = Gx_at curve, Y_at = Gy_at curve\<rparr>
      in case negated_h curve rB h of
           (Inl err, h1) \<Rightarrow> (Inl err, h1)
         | (Inr A2, h1) \<Rightarrow>
             ProofVrf_h sm3 c r1 r2 B (K_of share) nodePubKey targetPubKey A2 (C_of share) h1)"

text \<open>
  What a struct of addresses denotes in a store, and when the objects it
  refers to exist there.
\<close>

definition point_val :: "store \<Rightarrow> 'a PublicKeyRef_scheme \<Rightarrow> CurvePoint" where
  "point_val h p = \<lparr>Curve = Ops (Curve_of p), X = h ! X_at p, Y = h ! Y_at p\<rparr>"

definition key_val :: "store \<Rightarrow> PrivateKeyRef \<Rightarrow> PrivateKey" where
  "key_val h k =
     \<lparr>Curve = Ops (Curve_of k), X = h ! X_at k, Y = h ! Y_at k, D = h ! D_at k\<rparr>"

definition text_val :: "store \<Rightarrow> CipherTextRef \<Rightarrow> CipherText" where
  "text_val h t = \<lparr>K = point_val h (K_of t), C = point_val h (C_of t)\<rparr>"

definition point_in :: "store \<Rightarrow> 'a PublicKeyRef_scheme \<Rightarrow> bool" where
  "point_in h p \<longleftrightarrow> X_at p < length h \<and> Y_at p < length h"

definition key_in :: "store \<Rightarrow> PrivateKeyRef \<Rightarrow> bool" where
  "key_in h k \<longleftrightarrow> point_in h k \<and> D_at k < length h"

definition text_in :: "store \<Rightarrow> CipherTextRef \<Rightarrow> bool" where
  "text_in h t \<longleftrightarrow> point_in h (K_of t) \<and> point_in h (C_of t)"

text \<open>The parameter objects of a curve and the variable \<open>one\<close> hold their values.\<close>

definition params_in :: "store \<Rightarrow> addr \<Rightarrow> CurveRef \<Rightarrow> bool" where
  "params_in h one c \<longleftrightarrow>
     one < length h \<and> h ! one = 1 \<and>
     P_at c < length h \<and> h ! P_at c = P (Params (Ops c)) \<and>
     N_at c < length h \<and> h ! N_at c = N (Params (Ops c)) \<and>
     Gx_at c < length h \<and> h ! Gx_at c = Gx (Params (Ops c)) \<and>
     Gy_at c < length h \<and> h ! Gy_at c = Gy (Params (Ops c))"

section \<open>Properties\<close>

subsection \<open>Byte strings\<close>

lemma quo_nonneg: "0 \<le> a \<Longrightarrow> 0 < b \<Longrightarrow> quo a b = a div b"
  by (cases "a = 0") (simp_all add: quo_def)

lemma SetBytes_append: "SetBytes (xs @ [x]) = SetBytes xs * 256 + uint x"
  by (simp add: SetBytes_def)

lemma SetBytes_be_bytes: "SetBytes (be_bytes n) = int n"
proof (induction n rule: be_bytes.induct)
  case (1 n)
  show ?case
  proof (cases "n = 0")
    case True
    then show ?thesis by (simp add: be_bytes.simps SetBytes_def)
  next
    case False
    have u: "uint (of_nat (n mod 256) :: byte) = int (n mod 256)"
      by (simp add: unsigned_of_nat take_bit_eq_mod)
    have "SetBytes (be_bytes n) = SetBytes (be_bytes (n div 256)) * 256 + int (n mod 256)"
      using False u by (subst be_bytes.simps) (simp add: SetBytes_append)
    also have "\<dots> = int (n div 256) * 256 + int (n mod 256)"
      using 1 False by simp
    also have "\<dots> = int n"
      by (simp add: zdiv_int zmod_int)
    finally show ?thesis .
  qed
qed

lemma SetBytes_Bytes: "SetBytes (Bytes x) = \<bar>x\<bar>"
  by (simp add: Bytes_def SetBytes_be_bytes)

lemma SetBytes_nonneg: "0 \<le> SetBytes b"
proof (induction b rule: rev_induct)
  case Nil
  then show ?case by (simp add: SetBytes_def)
next
  case (snoc x xs)
  then show ?case by (simp add: SetBytes_append)
qed

lemma SetBytes_bound: "SetBytes b < 256 ^ length b"
proof (induction b rule: rev_induct)
  case Nil
  then show ?case by (simp add: SetBytes_def)
next
  case (snoc x xs)
  have "uint x < 256" using uint_bounded [of x] by simp
  moreover have "SetBytes xs + 1 \<le> 256 ^ length xs" using snoc by simp
  then have "(SetBytes xs + 1) * 256 \<le> 256 ^ length xs * 256"
    by (rule mult_right_mono) simp
  ultimately show ?case by (simp add: SetBytes_append algebra_simps)
qed

subsection \<open>The group of the backend\<close>

lemma valid_zero: "valid c (0, 0)"
  by (simp add: valid_def)

lemma add_closed: "group_ok c \<Longrightarrow> valid c p \<Longrightarrow> valid c q \<Longrightarrow> valid c (add c p q)"
  unfolding group_ok_def by blast

lemma add_assoc:
  "group_ok c \<Longrightarrow> valid c p \<Longrightarrow> valid c q \<Longrightarrow> valid c r \<Longrightarrow>
     add c (add c p q) r = add c p (add c q r)"
  unfolding group_ok_def by blast

lemma add_comm: "group_ok c \<Longrightarrow> valid c p \<Longrightarrow> valid c q \<Longrightarrow> add c p q = add c q p"
  unfolding group_ok_def by blast

lemma add_zero_right: "group_ok c \<Longrightarrow> valid c p \<Longrightarrow> add c p (0, 0) = p"
  unfolding group_ok_def by blast

lemma add_zero_left: "group_ok c \<Longrightarrow> valid c p \<Longrightarrow> add c (0, 0) p = p"
  using add_comm [of c "(0, 0)" p] add_zero_right [of c p] valid_zero [of c] by simp

lemma neg_valid: "group_ok c \<Longrightarrow> valid c p \<Longrightarrow> valid c (neg c p)"
  unfolding group_ok_def by blast

lemma add_neg_right: "group_ok c \<Longrightarrow> valid c p \<Longrightarrow> add c p (neg c p) = (0, 0)"
  unfolding group_ok_def by blast

lemma mul_order: "group_ok c \<Longrightarrow> valid c p \<Longrightarrow> mul c (nat (N (Params c))) p = (0, 0)"
  unfolding group_ok_def by blast

lemma base_valid: "group_ok c \<Longrightarrow> valid c (base c)"
  unfolding group_ok_def by blast

lemma order_pos: "group_ok c \<Longrightarrow> 1 < N (Params c)"
  unfolding group_ok_def by blast

lemma prime_pos: "group_ok c \<Longrightarrow> 0 < P (Params c)"
  unfolding group_ok_def by blast

lemma add_left_comm:
  assumes "group_ok c" "valid c p" "valid c q" "valid c r"
  shows "add c p (add c q r) = add c q (add c p r)"
proof -
  have "add c p (add c q r) = add c (add c p q) r"
    using assms by (simp add: add_assoc)
  also have "\<dots> = add c (add c q p) r"
    using assms by (simp add: add_comm [of c p q])
  also have "\<dots> = add c q (add c p r)"
    using assms by (simp add: add_assoc)
  finally show ?thesis .
qed

lemma mul_valid: "group_ok c \<Longrightarrow> valid c p \<Longrightarrow> valid c (mul c k p)"
  by (induction k) (simp_all add: valid_zero add_closed)

lemma mul_one: "group_ok c \<Longrightarrow> valid c p \<Longrightarrow> mul c (Suc 0) p = p"
  by (simp add: add_zero_left)

lemma mul_add:
  assumes "group_ok c" "valid c p"
  shows "mul c (a + b) p = add c (mul c a p) (mul c b p)"
proof (induction b)
  case 0
  then show ?case using assms by (simp add: add_zero_right mul_valid)
next
  case (Suc b)
  then show ?case using assms by (simp add: add_assoc mul_valid)
qed

lemma mul_zero_point: "group_ok c \<Longrightarrow> mul c k (0, 0) = (0, 0)"
  by (induction k) (simp_all add: add_zero_right valid_zero)

lemma mul_mult:
  assumes "group_ok c" "valid c p"
  shows "mul c (a * b) p = mul c a (mul c b p)"
proof (induction a)
  case 0
  then show ?case by simp
next
  case (Suc a)
  have "mul c (Suc a * b) p = mul c (a * b + b) p"
    by (simp add: add.commute)
  also have "\<dots> = add c (mul c (a * b) p) (mul c b p)"
    using assms by (rule mul_add)
  finally show ?case using Suc by simp
qed

lemma mul_mod:
  assumes "group_ok c" "valid c p"
  shows "mul c (k mod nat (N (Params c))) p = mul c k p"
proof -
  let ?n = "nat (N (Params c))"
  have "mul c k p = mul c (k mod ?n + (k div ?n) * ?n) p"
    by simp
  also have "\<dots> = add c (mul c (k mod ?n) p) (mul c ((k div ?n) * ?n) p)"
    using assms by (rule mul_add)
  also have "mul c ((k div ?n) * ?n) p = mul c (k div ?n) (mul c ?n p)"
    using assms by (rule mul_mult)
  also have "\<dots> = (0, 0)"
    using assms by (simp add: mul_order mul_zero_point)
  finally show ?thesis
    using assms by (simp add: add_zero_right mul_valid)
qed

lemma mul_cong:
  assumes "group_ok c" "valid c p" "a mod nat (N (Params c)) = b mod nat (N (Params c))"
  shows "mul c a p = mul c b p"
  using mul_mod [OF assms(1,2), of a] mul_mod [OF assms(1,2), of b] assms(3) by simp

lemma mul_add_point:
  assumes "group_ok c" "valid c p" "valid c q"
  shows "mul c k (add c p q) = add c (mul c k p) (mul c k q)"
proof (induction k)
  case 0
  then show ?case using assms by (simp add: add_zero_right valid_zero)
next
  case (Suc k)
  let ?a = "mul c k p" and ?b = "mul c k q"
  have v: "valid c ?a" "valid c ?b" using assms by (simp_all add: mul_valid)
  have "add c (add c ?a ?b) (add c p q) = add c ?a (add c ?b (add c p q))"
    using assms v by (simp add: add_assoc add_closed)
  also have "add c ?b (add c p q) = add c p (add c ?b q)"
    using assms v by (simp add: add_left_comm [of c "mul c k q" p q])
  also have "add c ?a (add c p (add c ?b q)) = add c (add c ?a p) (add c ?b q)"
    using assms v by (simp add: add_assoc add_closed)
  finally show ?case using Suc by simp
qed

lemma neg_unique:
  assumes "group_ok c" "valid c a" "valid c b" "add c a b = (0, 0)"
  shows "b = neg c a"
proof -
  have n: "valid c (neg c a)" using assms by (simp add: neg_valid)
  have "b = add c (add c (neg c a) a) b"
    using assms n add_neg_right [of c a] by (simp add: add_comm [of c "neg c a" a] add_zero_left)
  also have "\<dots> = add c (neg c a) (add c a b)"
    using assms n by (simp add: add_assoc)
  also have "\<dots> = neg c a"
    using assms n by (simp add: add_zero_right)
  finally show ?thesis .
qed

lemma mul_neg:
  assumes "group_ok c" "valid c p"
  shows "mul c k (neg c p) = neg c (mul c k p)"
proof (rule neg_unique [OF assms(1)])
  show "valid c (mul c k p)" using assms by (simp add: mul_valid)
  show "valid c (mul c k (neg c p))" using assms by (simp add: mul_valid neg_valid)
  have "add c (mul c k p) (mul c k (neg c p)) = mul c k (add c p (neg c p))"
    using assms by (simp add: mul_add_point neg_valid)
  then show "add c (mul c k p) (mul c k (neg c p)) = (0, 0)"
    using assms by (simp add: add_neg_right mul_zero_point)
qed

lemma add_neg_cancel:
  assumes "group_ok c" "valid c p" "valid c q"
  shows "add c (add c q p) (neg c p) = q"
proof -
  have "add c (add c q p) (neg c p) = add c q (add c p (neg c p))"
    using assms by (simp add: add_assoc neg_valid)
  then show ?thesis using assms by (simp add: add_neg_right add_zero_right)
qed

subsection \<open>The small backend meets the contract\<close>

lemma tiny_fields [simp]:
  "Params tiny = \<lparr>P = 5, N = 7, Gx = 0, Gy = 1, BitSize = 3\<rparr>"
  "Add tiny = tiny_Add" "ScalarMult tiny = tiny_ScalarMult"
  "ScalarBaseMult tiny = tiny_ScalarMult 0 1" "IsOnCurve tiny = tiny_IsOnCurve"
  by (simp_all add: tiny_def)

lemma tiny_on_curve_iff:
  "tiny_IsOnCurve x y \<longleftrightarrow> (x, y) \<in> {(0, 1), (0, 4), (1, 2), (1, 3), (3, 2), (3, 3)}"
proof
  assume a: "tiny_IsOnCurve x y"
  then have "x \<in> {0, 1, 2, 3, 4}" "y \<in> {0, 1, 2, 3, 4}"
    unfolding tiny_IsOnCurve_def by auto
  with a show "(x, y) \<in> {(0, 1), (0, 4), (1, 2), (1, 3), (3, 2), (3, 3)}"
    unfolding tiny_IsOnCurve_def by auto
next
  assume "(x, y) \<in> {(0, 1), (0, 4), (1, 2), (1, 3), (3, 2), (3, 3)}"
  then show "tiny_IsOnCurve x y"
    unfolding tiny_IsOnCurve_def by auto
qed

lemma lt7_cases: "k < 7 \<Longrightarrow> k \<in> {0, 1, 2, 3, 4, 5, 6 :: nat}"
  by auto

lemma tiny_valid_exp: "valid tiny p \<longleftrightarrow> (\<exists>k<7. p = tiny_exp k)"
proof
  assume "valid tiny p"
  then have "p \<in> {(0, 0), (0, 1), (0, 4), (1, 2), (1, 3), (3, 2), (3, 3)}"
    by (cases p) (auto simp: valid_def tiny_on_curve_iff)
  then have "p \<in> tiny_exp ` {0, 1, 2, 3, 4, 5, 6}"
    by (auto simp: tiny_exp_def)
  then obtain k where k: "k \<in> {0, 1, 2, 3, 4, 5, 6 :: nat}" "p = tiny_exp k"
    by blast
  from k(1) have "k < 7" by auto
  with k(2) show "\<exists>k<7. p = tiny_exp k" by blast
next
  assume "\<exists>k<7. p = tiny_exp k"
  then obtain k where k: "k < 7" "p = tiny_exp k" by blast
  from lt7_cases [OF k(1)] k(2) show "valid tiny p"
    by (auto simp: valid_def tiny_on_curve_iff tiny_exp_def)
qed

lemma tiny_exp_mod: "tiny_exp (k mod 7) = tiny_exp k"
  by (simp add: tiny_exp_def)

lemma tiny_log_exp: "tiny_log (fst (tiny_exp k)) (snd (tiny_exp k)) = k mod 7"
proof -
  have "k mod 7 < 7" by simp
  from lt7_cases [OF this] show ?thesis
    by (auto simp: tiny_exp_def tiny_log_def)
qed

lemma tiny_add_exp: "add tiny (tiny_exp i) (tiny_exp j) = tiny_exp (i + j)"
proof -
  have "tiny_exp (i mod 7 + j mod 7) = tiny_exp ((i mod 7 + j mod 7) mod 7)"
    by (simp only: tiny_exp_mod)
  also have "\<dots> = tiny_exp (i + j)"
    by (simp only: mod_add_eq tiny_exp_mod)
  finally show ?thesis
    by (simp add: add_def tiny_Add_def tiny_log_exp)
qed

lemma tiny_neg_exp: "neg tiny (tiny_exp k) = tiny_exp (7 - k mod 7)"
proof -
  have "k mod 7 < 7" by simp
  from lt7_cases [OF this] show ?thesis
    by (auto simp: tiny_exp_def neg_def)
qed

lemma tiny_mul_exp: "mul tiny k (tiny_exp i) = tiny_exp (k * i)"
proof (induction k)
  case 0
  then show ?case by (simp add: tiny_exp_def)
next
  case (Suc k)
  then show ?case by (simp add: tiny_add_exp add.commute)
qed

lemma tiny_group_ok: "group_ok tiny"
  unfolding group_ok_def
proof (intro conjI allI impI)
  show "0 < P (Params tiny)" "1 < N (Params tiny)" by simp_all
  show "valid tiny (base tiny)"
    by (simp add: valid_def base_def tiny_on_curve_iff)
next
  fix p q assume "valid tiny p" "valid tiny q"
  then obtain i j where "p = tiny_exp i" "q = tiny_exp j"
    by (auto simp: tiny_valid_exp)
  then show "valid tiny (add tiny p q)"
    using tiny_exp_mod [of "i + j"] by (auto simp: tiny_add_exp tiny_valid_exp intro!: exI [of _ "(i + j) mod 7"])
next
  fix p q r assume "valid tiny p" "valid tiny q" "valid tiny r"
  then obtain i j k where "p = tiny_exp i" "q = tiny_exp j" "r = tiny_exp k"
    by (auto simp: tiny_valid_exp)
  then show "add tiny (add tiny p q) r = add tiny p (add tiny q r)"
    by (simp add: tiny_add_exp add.assoc)
next
  fix p q assume "valid tiny p" "valid tiny q"
  then obtain i j where "p = tiny_exp i" "q = tiny_exp j"
    by (auto simp: tiny_valid_exp)
  then show "add tiny p q = add tiny q p"
    by (simp add: tiny_add_exp add.commute)
next
  fix p assume "valid tiny p"
  then obtain i where p: "p = tiny_exp i"
    by (auto simp: tiny_valid_exp)
  have z: "(0, 0) = tiny_exp 0" by (simp add: tiny_exp_def)
  show "add tiny p (0, 0) = p"
    unfolding p z by (simp add: tiny_add_exp)
  show "valid tiny (neg tiny p)"
    unfolding p tiny_neg_exp tiny_valid_exp
    using tiny_exp_mod [of "7 - i mod 7"] by (auto intro!: exI [of _ "(7 - i mod 7) mod 7"])
  have "tiny_exp (i + (7 - i mod 7)) = tiny_exp ((i + (7 - i mod 7)) mod 7)"
    by (simp only: tiny_exp_mod)
  also have "(i + (7 - i mod 7)) mod 7 = 0"
    by presburger
  finally show "add tiny p (neg tiny p) = (0, 0)"
    unfolding p tiny_neg_exp tiny_add_exp by (simp add: tiny_exp_def)
  have "mul tiny 7 (tiny_exp i) = tiny_exp (7 * i)"
    by (rule tiny_mul_exp)
  also have "\<dots> = tiny_exp ((7 * i) mod 7)"
    by (simp only: tiny_exp_mod)
  also have "\<dots> = (0, 0)"
    by (simp add: tiny_exp_def)
  finally show "mul tiny (nat (N (Params tiny))) p = (0, 0)"
    unfolding p by simp
qed

lemma tiny_scalar_mult_ok: "scalar_mult_ok tiny"
  unfolding scalar_mult_ok_def
proof (intro allI impI)
  fix p k assume "valid tiny p"
  then obtain i where i: "i < 7" "p = tiny_exp i"
    by (auto simp: tiny_valid_exp)
  let ?s = "nat (SetBytes k)"
  have s: "nat (SetBytes k mod 7) = ?s mod 7"
    using SetBytes_nonneg [of k] by (simp add: nat_mod_distrib)
  have "tiny_exp (?s mod 7 * i) = tiny_exp ((?s mod 7 * i) mod 7)"
    by (simp only: tiny_exp_mod)
  also have "\<dots> = tiny_exp ((?s * i) mod 7)"
    by (simp only: mod_mult_left_eq)
  also have "\<dots> = tiny_exp (?s * i)"
    by (simp only: tiny_exp_mod)
  finally show "ScalarMult tiny (fst p) (snd p) k = mul tiny (nat (SetBytes k)) p"
    using i by (simp add: tiny_ScalarMult_def tiny_log_exp tiny_mul_exp s)
qed

lemma tiny_curve_ok: "curve_ok tiny"
  by (simp add: curve_ok_def tiny_group_ok tiny_scalar_mult_ok base_mult_ok_def)

lemma tiny_log_mod: "tiny_log (u mod 5) (v mod 5) = tiny_log u v"
  by (simp add: tiny_log_def)

lemma tiny_add_reduces: "add_reduces tiny"
  by (simp add: add_reduces_def tiny_Add_def tiny_log_mod)

subsection \<open>Scalar sampling\<close>

lemma randFieldElement_eq:
  assumes "2 \<le> N (Params c)" and "0 \<le> BitSize (Params c)"
  shows "randFieldElement c random =
           (if length random < nat (BitSize (Params c) div 8 + 8) then Inl EntropyFailure
            else Inr (SetBytes (take (nat (BitSize (Params c) div 8 + 8)) random)
                        mod (N (Params c) - 1) + 1,
                      drop (nat (BitSize (Params c) div 8 + 8)) random))"
proof -
  have q: "quo (BitSize (Params c)) 8 = BitSize (Params c) div 8"
    using assms(2) by (simp add: quo_nonneg)
  have n: "0 < N (Params c) - 1" using assms(1) by simp
  show ?thesis
    using n assms(2) by (simp add: randFieldElement_def q ReadFull_def Mod_def Let_def)
qed

lemma randFieldElement_range:
  assumes "2 \<le> N (Params c)" and "0 \<le> BitSize (Params c)"
    and "randFieldElement c random = Inr (k, random')"
  shows "1 \<le> k \<and> k \<le> N (Params c) - 1"
proof -
  let ?len = "nat (BitSize (Params c) div 8 + 8)"
  have n: "0 < N (Params c) - 1" using assms(1) by simp
  have k: "k = SetBytes (take ?len random) mod (N (Params c) - 1) + 1"
    using assms(3) unfolding randFieldElement_eq [OF assms(1,2)]
    by (simp split: if_splits)
  have "0 \<le> SetBytes (take ?len random) mod (N (Params c) - 1)"
    using n by simp
  moreover have "SetBytes (take ?len random) mod (N (Params c) - 1) < N (Params c) - 1"
    using n by simp
  ultimately show ?thesis unfolding k by simp
qed

text \<open>
  C7.  With a valid order (\<open>N \<ge> 2\<close>) and bit size, \<open>randFieldElement\<close>
  reads \<open>BitSize / 8 + 8\<close> bytes; when the read succeeds it returns
  \<open>(t mod (N - 1)) + 1\<close> for the big-endian value \<open>t\<close> of those bytes,
  a number between \<open>1\<close> and \<open>N - 1\<close>; it fails only when the random
  source has fewer bytes left, and then with the error of the source.
\<close>

theorem randFieldElement_sample:
  assumes "2 \<le> N (Params c)" and "0 \<le> BitSize (Params c)"
  shows "randFieldElement c random =
           (let len = nat (BitSize (Params c) div 8 + 8)
            in if length random < len then Inl EntropyFailure
               else Inr (SetBytes (take len random) mod (N (Params c) - 1) + 1,
                         drop len random))
         \<and> (\<forall>k random'. randFieldElement c random = Inr (k, random') \<longrightarrow>
                1 \<le> k \<and> k \<le> N (Params c) - 1)
         \<and> (\<forall>err. randFieldElement c random = Inl err \<longrightarrow>
                err = EntropyFailure \<and> length random < nat (BitSize (Params c) div 8 + 8))"
proof (intro conjI allI impI)
  show "randFieldElement c random =
           (let len = nat (BitSize (Params c) div 8 + 8)
            in if length random < len then Inl EntropyFailure
               else Inr (SetBytes (take len random) mod (N (Params c) - 1) + 1,
                         drop len random))"
    using randFieldElement_eq [OF assms] by (simp add: Let_def)
next
  fix k random' assume "randFieldElement c random = Inr (k, random')"
  from randFieldElement_range [OF assms this]
  show "1 \<le> k" "k \<le> N (Params c) - 1" by simp_all
next
  fix err assume "randFieldElement c random = Inl err"
  then show "err = EntropyFailure" "length random < nat (BitSize (Params c) div 8 + 8)"
    unfolding randFieldElement_eq [OF assms] by (simp_all split: if_splits)
qed

theorem randFieldElement_sample_witness:
  "2 \<le> N (Params tiny) \<and> 0 \<le> BitSize (Params tiny) \<and>
   randFieldElement tiny [0, 0, 0, 0, 0, 0, 1, 3, 9] = Inr (2, [9]) \<and>
   randFieldElement tiny [0, 0, 0, 0, 0, 0, 1] = Inl EntropyFailure"
  using randFieldElement_sample [of tiny "[0, 0, 0, 0, 0, 0, 1, 3, 9]"]
    randFieldElement_sample [of tiny "[0, 0, 0, 0, 0, 0, 1]"]
  by (simp add: SetBytes_def)

subsection \<open>Empty aggregation\<close>

lemma CollPrivKey_loop_error:
  "CollPrivKey_loop n privs collPriv = Inl err \<Longrightarrow> err = PanicDivisionByZero"
proof (induction privs arbitrary: collPriv)
  case Nil
  then show ?case by simp
next
  case (Cons priv privs)
  then show ?case
    by (auto simp: Let_def Mod_def split: if_splits)
qed

lemma CollPrivKey_no_error_value: "error_value (CollPrivKey privs) = None"
proof (cases privs)
  case Nil
  then show ?thesis by (simp add: CollPrivKey_def error_value_def is_panic_def)
next
  case (Cons priv rest)
  show ?thesis
  proof (cases "CollPrivKey_loop (N (Params (Curve priv))) privs 0")
    case (Inl err)
    then have "err = PanicDivisionByZero" by (rule CollPrivKey_loop_error)
    with Inl have "CollPrivKey privs = Inl PanicDivisionByZero"
      unfolding CollPrivKey_def Cons by simp
    then show ?thesis by (simp add: error_value_def is_panic_def)
  next
    case (Inr collPriv)
    then have "\<exists>k. CollPrivKey privs = Inr k"
      unfolding CollPrivKey_def Cons by (simp split: prod.splits)
    then show ?thesis by (auto simp: error_value_def)
  qed
qed

lemma CollPubKey_no_error_value: "error_value (CollPubKey pubs) = None"
  by (simp add: error_value_def is_panic_def CollPubKey_def split: list.splits)

lemma ShareReplace_no_error_value: "error_value (ShareReplace shares rct) = None"
  by (simp add: error_value_def is_panic_def ShareReplace_def Let_def
      split: list.splits prod.splits)

text \<open>
  C8, as the code has it.  On an empty slice \<open>CollPrivKey\<close>,
  \<open>CollPubKey\<close> and \<open>ShareReplace\<close> stop at the statement that
  indexes element 0, with the run-time panic of Go for an index out of
  range: no key or ciphertext is returned, so no zero value either.  The
  library has no error kind of its own for empty input: on no input does
  one of the three functions return an error value to its caller.
\<close>

theorem empty_aggregation_fails:
  "CollPrivKey [] = Inl PanicIndexOutOfRange \<and>
   CollPubKey [] = Inl PanicIndexOutOfRange \<and>
   ShareReplace [] rct = Inl PanicIndexOutOfRange \<and>
   is_panic PanicIndexOutOfRange \<and>
   error_value (CollPrivKey privs) = None \<and>
   error_value (CollPubKey pubs) = None \<and>
   error_value (ShareReplace shares rct) = None"
proof (intro conjI)
  show "CollPrivKey [] = Inl PanicIndexOutOfRange" by (simp add: CollPrivKey_def)
  show "CollPubKey [] = Inl PanicIndexOutOfRange" by (simp add: CollPubKey_def)
  show "ShareReplace [] rct = Inl PanicIndexOutOfRange" by (simp add: ShareReplace_def)
  show "is_panic PanicIndexOutOfRange" by (simp add: is_panic_def)
  show "error_value (CollPrivKey privs) = None" by (rule CollPrivKey_no_error_value)
  show "error_value (CollPubKey pubs) = None" by (rule CollPubKey_no_error_value)
  show "error_value (ShareReplace shares rct) = None" by (rule ShareReplace_no_error_value)
qed

text \<open>
  A failure with an error kind of its own does not happen: called with the
  empty slice, none of the three functions returns an error value.
\<close>

theorem empty_aggregation_fails_counterexample:
  "error_value (CollPrivKey []) = None \<and>
   error_value (CollPubKey []) = None \<and>
   error_value (ShareReplace [] \<lparr>K = tiny_point 0 1, C = tiny_point 0 4\<rparr>) = None"
  by (simp add: CollPrivKey_def CollPubKey_def ShareReplace_def error_value_def is_panic_def)

subsection \<open>Range of the proof components\<close>

lemma response_range:
  assumes "response n c y v = Inr r" and "0 < n"
  shows "0 \<le> r \<and> r < n"
  using assms by (auto simp: response_def Mod_def split: if_splits)

lemma challenge_range: "0 \<le> challenge sm3 ws \<and> challenge sm3 ws < 2 ^ 256"
proof -
  let ?b = "take 32 (sm3 (concat (map Bytes ws)))"
  have "SetBytes ?b < 256 ^ length ?b" by (rule SetBytes_bound)
  also have "(256 :: int) ^ length ?b \<le> 256 ^ 32"
    by (rule power_increasing) simp_all
  finally show ?thesis by (simp add: challenge_def SetBytes_nonneg)
qed

lemma ProofGen_range:
  assumes "ProofGen sm3 y1 y2 B Y1 Y2 A1 A2 A random = Inr (c, r1, r2, random')"
    and "0 < N (Params (Curve Y1))"
  shows "0 \<le> c \<and> c < 2 ^ 256 \<and> 0 \<le> r1 \<and> r1 < N (Params (Curve Y1))
         \<and> 0 \<le> r2 \<and> r2 < N (Params (Curve Y1))"
  using assms challenge_range
  by (auto simp: ProofGen_def Let_def split: sum.splits prod.splits dest: response_range)

lemma ProofGenNoB_range:
  assumes "ProofGenNoB sm3 y1 y2 Y1 Y2 A1 A2 A random = Inr (c, r1, r2, random')"
    and "0 < N (Params (Curve Y1))"
  shows "0 \<le> c \<and> c < 2 ^ 256 \<and> 0 \<le> r1 \<and> r1 < N (Params (Curve Y1))
         \<and> 0 \<le> r2 \<and> r2 < N (Params (Curve Y1))"
  using assms challenge_range
  by (auto simp: ProofGenNoB_def Let_def split: sum.splits prod.splits dest: response_range)

lemma ProofGen_tiny_run:
  "ProofGen tiny_sm3 2 3 (tiny_point 0 1) (tiny_point 1 3) (tiny_point 3 3) (tiny_point 3 2)
     (tiny_point 1 2) (tiny_point 1 3) [0, 0, 0, 0, 0, 0, 0, 4, 0, 0, 0, 0, 0, 0, 0, 9] =
   Inr (93087758014313019850321772261886357293805281790024767168975704790675261083085, 6, 2, [])"
  by code_simp

lemma ShareProofGen_range:
  assumes "ShareProofGen sm3 ri priv share targetPubKey rB random = Inr (c, r1, r2, random')"
    and "0 < N (Params (Curve (K share)))"
  shows "0 \<le> c \<and> c < 2 ^ 256 \<and> 0 \<le> r1 \<and> r1 < N (Params (Curve (K share)))
         \<and> 0 \<le> r2 \<and> r2 < N (Params (Curve (K share)))"
proof -
  from assms(1) obtain A2 where
    "ProofGen sm3 ri (D priv)
       \<lparr>Curve = Curve priv, X = Gx (Params (Curve priv)), Y = Gy (Params (Curve priv))\<rparr>
       (K share) (GetPubKey priv) targetPubKey A2 (C share) random = Inr (c, r1, r2, random')"
    by (auto simp: ShareProofGen_def Let_def split: sum.splits)
  from ProofGen_range [OF this assms(2)] show ?thesis .
qed

text \<open>
  C5, as the code has it.  The two responses of a proof lie in \<open>[0, N)\<close>.
  The challenge is the first 32 bytes of the digest as a number, which is
  not reduced modulo \<open>N\<close>: it lies in \<open>[0, 2\<^sup>2\<^sup>5\<^sup>6)\<close>.  This holds for
  \<open>ProofGen\<close>, \<open>ProofGenNoB\<close> and \<open>ShareProofGen\<close> alike.
\<close>

theorem proof_components_range:
  assumes "0 < N (Params (Curve Y1))"
  shows "(ProofGen sm3 y1 y2 B Y1 Y2 A1 A2 A random = Inr (c, r1, r2, random') \<longrightarrow>
            0 \<le> c \<and> c < 2 ^ 256 \<and> 0 \<le> r1 \<and> r1 < N (Params (Curve Y1))
            \<and> 0 \<le> r2 \<and> r2 < N (Params (Curve Y1)))
       \<and> (ProofGenNoB sm3 y1 y2 Y1 Y2 A1 A2 A random = Inr (c, r1, r2, random') \<longrightarrow>
            0 \<le> c \<and> c < 2 ^ 256 \<and> 0 \<le> r1 \<and> r1 < N (Params (Curve Y1))
            \<and> 0 \<le> r2 \<and> r2 < N (Params (Curve Y1)))
       \<and> (Y1 = K share \<and>
          ShareProofGen sm3 y1 priv share targetPubKey rB random = Inr (c, r1, r2, random') \<longrightarrow>
            0 \<le> c \<and> c < 2 ^ 256 \<and> 0 \<le> r1 \<and> r1 < N (Params (Curve Y1))
            \<and> 0 \<le> r2 \<and> r2 < N (Params (Curve Y1)))"
proof (intro conjI impI)
  assume "ProofGen sm3 y1 y2 B Y1 Y2 A1 A2 A random = Inr (c, r1, r2, random')"
  from ProofGen_range [OF this assms]
  show "0 \<le> c" "c < 2 ^ 256" "0 \<le> r1" "r1 < N (Params (Curve Y1))"
    "0 \<le> r2" "r2 < N (Params (Curve Y1))" by simp_all
next
  assume "ProofGenNoB sm3 y1 y2 Y1 Y2 A1 A2 A random = Inr (c, r1, r2, random')"
  from ProofGenNoB_range [OF this assms]
  show "0 \<le> c" "c < 2 ^ 256" "0 \<le> r1" "r1 < N (Params (Curve Y1))"
    "0 \<le> r2" "r2 < N (Params (Curve Y1))" by simp_all
next
  assume a: "Y1 = K share \<and>
    ShareProofGen sm3 y1 priv share targetPubKey rB random = Inr (c, r1, r2, random')"
  then have "0 < N (Params (Curve (K share)))" using assms by simp
  from ShareProofGen_range [OF conjunct2 [OF a] this] a
  show "0 \<le> c" "c < 2 ^ 256" "0 \<le> r1" "r1 < N (Params (Curve Y1))"
    "0 \<le> r2" "r2 < N (Params (Curve Y1))" by simp_all
qed

theorem proof_components_range_witness:
  "0 < N (Params (Curve (tiny_point 1 3))) \<and>
   ProofGen tiny_sm3 2 3 (tiny_point 0 1) (tiny_point 1 3) (tiny_point 3 3) (tiny_point 3 2)
     (tiny_point 1 2) (tiny_point 1 3) [0, 0, 0, 0, 0, 0, 0, 4, 0, 0, 0, 0, 0, 0, 0, 9] =
   Inr (93087758014313019850321772261886357293805281790024767168975704790675261083085, 6, 2, []) \<and>
   (0::int) \<le> 93087758014313019850321772261886357293805281790024767168975704790675261083085 \<and>
   (93087758014313019850321772261886357293805281790024767168975704790675261083085::int) < 2 ^ 256 \<and>
   (6::int) < N (Params (Curve (tiny_point 1 3))) \<and>
   (2::int) < N (Params (Curve (tiny_point 1 3)))"
  using proof_components_range [of "tiny_point 1 3" tiny_sm3 2 3 "tiny_point 0 1"
      "tiny_point 3 3" "tiny_point 3 2" "tiny_point 1 2" "tiny_point 1 3"
      "[0, 0, 0, 0, 0, 0, 0, 4, 0, 0, 0, 0, 0, 0, 0, 9]"
      93087758014313019850321772261886357293805281790024767168975704790675261083085 6 2 "[]"]
    ProofGen_tiny_run
  by (simp add: tiny_point_def)

text \<open>
  The challenge need not lie below \<open>N\<close>: on the small backend an honest
  proof has a challenge far above the group order \<open>7\<close>.
\<close>

theorem proof_components_range_counterexample:
  "ProofGen tiny_sm3 2 3 (tiny_point 0 1) (tiny_point 1 3) (tiny_point 3 3) (tiny_point 3 2)
     (tiny_point 1 2) (tiny_point 1 3) [0, 0, 0, 0, 0, 0, 0, 4, 0, 0, 0, 0, 0, 0, 0, 9] =
   Inr (93087758014313019850321772261886357293805281790024767168975704790675261083085, 6, 2, []) \<and>
   \<not> (93087758014313019850321772261886357293805281790024767168975704790675261083085
        < N (Params (Curve (tiny_point 1 3))))"
  using ProofGen_tiny_run by (simp add: tiny_point_def)

subsection \<open>The variants without an explicit generator\<close>

lemma ProofGenNoB_eq:
  assumes "base_mult_ok (Curve Y1)"
    and "X B = Gx (Params (Curve Y1))" and "Y B = Gy (Params (Curve Y1))"
  shows "ProofGenNoB sm3 y1 y2 Y1 Y2 A1 A2 A random = ProofGen sm3 y1 y2 B Y1 Y2 A1 A2 A random"
proof -
  have b: "ScalarBaseMult (Curve Y1) k = ScalarMult (Curve Y1) (X B) (Y B) k" for k
    using assms by (simp add: base_mult_ok_def)
  show ?thesis
    unfolding ProofGenNoB_def ProofGen_def Let_def b assms(2,3) by (rule refl)
qed

lemma ProofVrfNoB_eq:
  assumes "base_mult_ok (Curve Y1)"
    and "X B = Gx (Params (Curve Y1))" and "Y B = Gy (Params (Curve Y1))"
  shows "ProofVrfNoB sm3 c r1 r2 Y1 Y2 A1 A2 A = ProofVrf sm3 c r1 r2 B Y1 Y2 A1 A2 A"
proof -
  have b: "ScalarBaseMult (Curve Y1) k = ScalarMult (Curve Y1) (X B) (Y B) k" for k
    using assms by (simp add: base_mult_ok_def)
  show ?thesis
    unfolding ProofVrfNoB_def ProofVrf_def Let_def b assms(2,3) by (rule refl)
qed

text \<open>
  C9.  When \<open>B\<close> has the coordinates of the generator of the curve of
  \<open>Y1\<close>, and the backend's \<open>ScalarBaseMult\<close> is its \<open>ScalarMult\<close>
  at the generator, then \<open>ProofGenNoB\<close> run on the same random source
  gives the result of \<open>ProofGen\<close> (the same proof, the same rest of the
  source, the same error), and \<open>ProofVrfNoB\<close> gives the result of
  \<open>ProofVrf\<close>.
\<close>

theorem NoB_equivalence:
  assumes "base_mult_ok (Curve Y1)"
    and "X B = Gx (Params (Curve Y1))" and "Y B = Gy (Params (Curve Y1))"
  shows "ProofGenNoB sm3 y1 y2 Y1 Y2 A1 A2 A random = ProofGen sm3 y1 y2 B Y1 Y2 A1 A2 A random
       \<and> ProofVrfNoB sm3 c r1 r2 Y1 Y2 A1 A2 A = ProofVrf sm3 c r1 r2 B Y1 Y2 A1 A2 A"
  using ProofGenNoB_eq [OF assms] ProofVrfNoB_eq [OF assms] by simp

theorem NoB_equivalence_witness:
  "base_mult_ok (Curve (tiny_point 1 3)) \<and>
   X (tiny_point 0 1) = Gx (Params (Curve (tiny_point 1 3))) \<and>
   Y (tiny_point 0 1) = Gy (Params (Curve (tiny_point 1 3))) \<and>
   ProofGenNoB tiny_sm3 2 3 (tiny_point 1 3) (tiny_point 3 3) (tiny_point 3 2)
     (tiny_point 1 2) (tiny_point 1 3) [0, 0, 0, 0, 0, 0, 0, 4, 0, 0, 0, 0, 0, 0, 0, 9] =
   ProofGen tiny_sm3 2 3 (tiny_point 0 1) (tiny_point 1 3) (tiny_point 3 3) (tiny_point 3 2)
     (tiny_point 1 2) (tiny_point 1 3) [0, 0, 0, 0, 0, 0, 0, 4, 0, 0, 0, 0, 0, 0, 0, 9] \<and>
   ProofVrfNoB tiny_sm3 5 6 2 (tiny_point 1 3) (tiny_point 3 3) (tiny_point 3 2)
     (tiny_point 1 2) (tiny_point 1 3) =
   ProofVrf tiny_sm3 5 6 2 (tiny_point 0 1) (tiny_point 1 3) (tiny_point 3 3) (tiny_point 3 2)
     (tiny_point 1 2) (tiny_point 1 3)"
proof -
  have b: "base_mult_ok (Curve (tiny_point 1 3))"
    using tiny_curve_ok by (simp add: curve_ok_def tiny_point_def)
  have x: "X (tiny_point 0 1) = Gx (Params (Curve (tiny_point 1 3)))"
    and y: "Y (tiny_point 0 1) = Gy (Params (Curve (tiny_point 1 3)))"
    by (simp_all add: tiny_point_def)
  from NoB_equivalence [OF b x y] b x y show ?thesis by simp
qed

subsection \<open>Sums of points\<close>

lemma psum_valid: "group_ok c \<Longrightarrow> \<forall>p\<in>set ps. valid c p \<Longrightarrow> valid c (psum c ps)"
  by (induction ps) (simp_all add: valid_zero add_closed)

lemma psum_append:
  assumes "group_ok c" "\<forall>p\<in>set ps. valid c p" "\<forall>p\<in>set qs. valid c p"
  shows "psum c (ps @ qs) = add c (psum c ps) (psum c qs)"
  using assms(2)
proof (induction ps)
  case Nil
  then show ?case using assms by (simp add: add_zero_left psum_valid)
next
  case (Cons p ps)
  then show ?case using assms by (simp add: add_assoc psum_valid)
qed

lemma psum_middle:
  assumes "group_ok c" "valid c p" "\<forall>q\<in>set as. valid c q" "\<forall>q\<in>set bs. valid c q"
  shows "psum c (as @ p # bs) = add c p (psum c (as @ bs))"
proof -
  have "psum c (as @ p # bs) = add c (psum c as) (add c p (psum c bs))"
    using assms by (simp add: psum_append)
  also have "\<dots> = add c p (add c (psum c as) (psum c bs))"
    using assms by (simp add: add_left_comm psum_valid)
  finally show ?thesis using assms by (simp add: psum_append)
qed

lemma psum_mset:
  assumes "group_ok c"
  shows "mset ps = mset qs \<Longrightarrow> \<forall>p\<in>set ps. valid c p \<Longrightarrow> psum c ps = psum c qs"
proof (induction ps arbitrary: qs)
  case Nil
  then show ?case by simp
next
  case (Cons p ps)
  from Cons.prems(1) have "p \<in> set qs"
    by (metis list.set_intros(1) mset_eq_setD)
  then obtain as bs where qs: "qs = as @ p # bs"
    by (auto dest: split_list)
  with Cons.prems(1) have m: "mset ps = mset (as @ bs)" by simp
  have v: "\<forall>q\<in>set (as @ bs). valid c q"
    using Cons.prems(2) mset_eq_setD [OF m] by simp
  have "psum c ps = psum c (as @ bs)"
    using Cons.IH [OF m] Cons.prems(2) by simp
  moreover have "psum c qs = add c p (psum c (as @ bs))"
    unfolding qs using assms Cons.prems(2) v by (intro psum_middle) simp_all
  ultimately show ?case by simp
qed

subsection \<open>Share replacement\<close>

lemma point_eqI: "Curve p = Curve q \<Longrightarrow> coords p = coords q \<Longrightarrow> p = (q :: CurvePoint)"
  by (simp add: coords_def)

lemma CipherText_eqI: "K s = K t \<Longrightarrow> C s = C t \<Longrightarrow> s = (t :: CipherText)"
  by simp

lemma Add_add: "Add c (X p) (Y p) (X q) (Y q) = add c (coords p) (coords q)"
  by (simp add: add_def coords_def)

lemma ShareReplace_loop_fields:
  assumes "group_ok c"
  shows "valid c (coords (K sigma)) \<Longrightarrow> valid c (coords (C sigma)) \<Longrightarrow>
         \<forall>s\<in>set shares. share_ok c s \<Longrightarrow>
         Curve (K (ShareReplace_loop c sigma shares)) = Curve (K sigma) \<and>
         Curve (C (ShareReplace_loop c sigma shares)) = Curve (C sigma) \<and>
         coords (K (ShareReplace_loop c sigma shares)) =
           add c (coords (K sigma)) (psum c (map (\<lambda>s. coords (K s)) shares)) \<and>
         coords (C (ShareReplace_loop c sigma shares)) =
           add c (coords (C sigma)) (psum c (map (\<lambda>s. coords (C s)) shares))"
proof (induction shares arbitrary: sigma)
  case Nil
  then show ?case using assms by (simp add: add_zero_right)
next
  case (Cons s shares)
  let ?k = "add c (coords (K sigma)) (coords (K s))"
  let ?c = "add c (coords (C sigma)) (coords (C s))"
  let ?sigma = "sigma\<lparr>K := (K sigma)\<lparr>X := fst ?k, Y := snd ?k\<rparr>,
                       C := (C sigma)\<lparr>X := fst ?c, Y := snd ?c\<rparr>\<rparr>"
  have s: "valid c (coords (K s))" "valid c (coords (C s))"
    using Cons.prems(3) by (simp_all add: share_ok_def on_curve_def)
  have vs: "\<forall>p\<in>set (map (\<lambda>s. coords (K s)) shares). valid c p"
    "\<forall>p\<in>set (map (\<lambda>s. coords (C s)) shares). valid c p"
    using Cons.prems(3) by (simp_all add: share_ok_def on_curve_def)
  have step: "ShareReplace_loop c sigma (s # shares) = ShareReplace_loop c ?sigma shares"
    by (simp add: Add_add split: prod.splits)
  have k: "coords (K ?sigma) = ?k" and c: "coords (C ?sigma) = ?c"
    by (simp_all add: coords_def)
  have "valid c (coords (K ?sigma))" "valid c (coords (C ?sigma))"
    unfolding k c using assms Cons.prems(1,2) s by (simp_all add: add_closed)
  from Cons.IH [OF this] Cons.prems(3)
  have ih: "Curve (K (ShareReplace_loop c ?sigma shares)) = Curve (K sigma)"
    "Curve (C (ShareReplace_loop c ?sigma shares)) = Curve (C sigma)"
    "coords (K (ShareReplace_loop c ?sigma shares)) =
       add c ?k (psum c (map (\<lambda>s. coords (K s)) shares))"
    "coords (C (ShareReplace_loop c ?sigma shares)) =
       add c ?c (psum c (map (\<lambda>s. coords (C s)) shares))"
    unfolding k c by simp_all
  show ?case
    unfolding step ih using assms Cons.prems(1,2) s vs
    by (simp add: add_assoc psum_valid)
qed

lemma ShareReplace_sum:
  assumes "group_ok c" and "Curve (K rct) = c" and "valid c (coords (C rct))"
    and "shares \<noteq> []" and "\<forall>s\<in>set shares. share_ok c s"
  shows "ShareReplace shares rct =
           Inr \<lparr>K = \<lparr>Curve = c, X = fst (psum c (map (\<lambda>s. coords (K s)) shares)),
                     Y = snd (psum c (map (\<lambda>s. coords (K s)) shares))\<rparr>,
                C = \<lparr>Curve = c,
                     X = fst (add c (psum c (map (\<lambda>s. coords (C s)) shares)) (coords (C rct))),
                     Y = snd (add c (psum c (map (\<lambda>s. coords (C s)) shares)) (coords (C rct)))\<rparr>\<rparr>"
proof -
  from assms(4) obtain s rest where sh: "shares = s # rest" by (cases shares) auto
  have s: "on_curve c (K s)" "on_curve c (C s)" and rest: "\<forall>s\<in>set rest. share_ok c s"
    using assms(5) by (simp_all add: sh share_ok_def)
  let ?sigma = "ShareReplace_loop c s rest"
  from ShareReplace_loop_fields [OF assms(1) _ _ rest, of s] s
  have f: "Curve (K ?sigma) = c" "Curve (C ?sigma) = c"
    "coords (K ?sigma) = psum c (map (\<lambda>s. coords (K s)) shares)"
    "coords (C ?sigma) = psum c (map (\<lambda>s. coords (C s)) shares)"
    by (simp_all add: on_curve_def sh)
  let ?cc = "add c (coords (C ?sigma)) (coords (C rct))"
  have r: "ShareReplace shares rct = Inr (?sigma\<lparr>C := (C ?sigma)\<lparr>X := fst ?cc, Y := snd ?cc\<rparr>\<rparr>)"
    by (simp add: ShareReplace_def sh assms(2) Add_add Let_def split: prod.splits)
  show ?thesis
    unfolding r using f
    by (intro arg_cong [where f = Inr] CipherText_eqI point_eqI) (simp_all add: coords_def)
qed

text \<open>
  C6.  For shares that lie on the curve of the ciphertext, two non-empty
  share vectors that are permutations of each other are replaced into the
  same ciphertext.
\<close>

theorem ShareReplace_permutation:
  assumes "group_ok c" and "Curve (K rct) = c" and "valid c (coords (C rct))"
    and "shares \<noteq> []" and "\<forall>s\<in>set shares. share_ok c s"
    and "mset shares' = mset shares"
  shows "ShareReplace shares' rct = ShareReplace shares rct
         \<and> (\<exists>ct. ShareReplace shares rct = Inr ct)"
proof -
  have ne: "shares' \<noteq> []" using assms(4,6) by auto
  have ok: "\<forall>s\<in>set shares'. share_ok c s"
    using assms(5) mset_eq_setD [OF assms(6)] by simp
  have k: "psum c (map (\<lambda>s. coords (K s)) shares') = psum c (map (\<lambda>s. coords (K s)) shares)"
    using assms(6) ok
    by (intro psum_mset [OF assms(1)]) (simp_all add: share_ok_def on_curve_def)
  have c: "psum c (map (\<lambda>s. coords (C s)) shares') = psum c (map (\<lambda>s. coords (C s)) shares)"
    using assms(6) ok
    by (intro psum_mset [OF assms(1)]) (simp_all add: share_ok_def on_curve_def)
  show ?thesis
    unfolding ShareReplace_sum [OF assms(1,2,3) ne ok] ShareReplace_sum [OF assms(1-5)] k c
    by simp
qed

lemma tiny_point_on_curve:
  "tiny_IsOnCurve x y \<Longrightarrow> on_curve tiny (tiny_point x y)"
  by (simp add: on_curve_def tiny_point_def valid_def coords_def)

theorem ShareReplace_permutation_witness:
  "group_ok tiny \<and>
   Curve (K \<lparr>K = tiny_point 1 2, C = tiny_point 3 3\<rparr>) = tiny \<and>
   valid tiny (coords (C \<lparr>K = tiny_point 1 2, C = tiny_point 3 3\<rparr>)) \<and>
   share_ok tiny \<lparr>K = tiny_point 0 1, C = tiny_point 1 3\<rparr> \<and>
   share_ok tiny \<lparr>K = tiny_point 3 3, C = tiny_point 0 4\<rparr> \<and>
   share_ok tiny \<lparr>K = tiny_point 1 2, C = tiny_point 3 2\<rparr> \<and>
   ShareReplace [\<lparr>K = tiny_point 3 3, C = tiny_point 0 4\<rparr>,
                 \<lparr>K = tiny_point 1 2, C = tiny_point 3 2\<rparr>,
                 \<lparr>K = tiny_point 0 1, C = tiny_point 1 3\<rparr>]
     \<lparr>K = tiny_point 1 2, C = tiny_point 3 3\<rparr> =
   ShareReplace [\<lparr>K = tiny_point 0 1, C = tiny_point 1 3\<rparr>,
                 \<lparr>K = tiny_point 3 3, C = tiny_point 0 4\<rparr>,
                 \<lparr>K = tiny_point 1 2, C = tiny_point 3 2\<rparr>]
     \<lparr>K = tiny_point 1 2, C = tiny_point 3 3\<rparr>"
proof -
  let ?rct = "\<lparr>K = tiny_point 1 2, C = tiny_point 3 3\<rparr>"
  let ?shares = "[\<lparr>K = tiny_point 0 1, C = tiny_point 1 3\<rparr>,
                  \<lparr>K = tiny_point 3 3, C = tiny_point 0 4\<rparr>,
                  \<lparr>K = tiny_point 1 2, C = tiny_point 3 2\<rparr>]"
  let ?shares' = "[\<lparr>K = tiny_point 3 3, C = tiny_point 0 4\<rparr>,
                   \<lparr>K = tiny_point 1 2, C = tiny_point 3 2\<rparr>,
                   \<lparr>K = tiny_point 0 1, C = tiny_point 1 3\<rparr>]"
  have 1: "Curve (K ?rct) = tiny" by (simp add: tiny_point_def)
  have 2: "valid tiny (coords (C ?rct))"
    by (simp add: tiny_point_def valid_def coords_def tiny_on_curve_iff)
  have 3: "?shares \<noteq> []" by simp
  have 4: "\<forall>s\<in>set ?shares. share_ok tiny s"
    by (simp add: share_ok_def tiny_point_on_curve tiny_on_curve_iff)
  have 5: "mset ?shares' = mset ?shares" by simp
  from ShareReplace_permutation [OF tiny_group_ok 1 2 3 4 5] tiny_group_ok 1 2 4
  show ?thesis by simp
qed

subsection \<open>Key aggregation\<close>

lemma GetPubKey_fields [simp]:
  "Curve (GetPubKey k) = Curve k" "X (GetPubKey k) = X k" "Y (GetPubKey k) = Y k"
  "coords (GetPubKey k) = coords k"
  by (simp_all add: GetPubKey_def PublicKey.truncate_def coords_def)

lemma ScalarMult_mul:
  assumes "curve_ok c" "valid c (coords p)" "0 \<le> d"
  shows "ScalarMult c (X p) (Y p) (Bytes d) = mul c (nat d) (coords p)"
  using assms by (simp add: curve_ok_def scalar_mult_ok_def coords_def SetBytes_Bytes)

lemma ScalarBaseMult_mul:
  assumes "curve_ok c" "0 \<le> d"
  shows "ScalarBaseMult c (Bytes d) = mul c (nat d) (base c)"
proof -
  have g: "group_ok c" using assms(1) by (simp add: curve_ok_def)
  have "ScalarBaseMult c (Bytes d) = ScalarMult c (fst (base c)) (snd (base c)) (Bytes d)"
    using assms(1) by (simp add: curve_ok_def base_mult_ok_def base_def)
  also have "\<dots> = mul c (nat (SetBytes (Bytes d))) (base c)"
    using assms(1) base_valid [OF g] by (simp add: curve_ok_def scalar_mult_ok_def)
  finally show ?thesis using assms(2) by (simp add: SetBytes_Bytes)
qed

lemma mul_int_mod:
  assumes "group_ok c" "valid c p" "0 \<le> s"
  shows "mul c (nat (s mod N (Params c))) p = mul c (nat s) p"
proof -
  have "nat (s mod N (Params c)) = nat s mod nat (N (Params c))"
    using assms(3) order_pos [OF assms(1)] by (simp add: nat_mod_distrib)
  then show ?thesis using mul_mod [OF assms(1,2)] by simp
qed

lemma CollPrivKey_loop_sum:
  assumes "0 < n"
  shows "0 \<le> acc \<Longrightarrow> acc < n \<Longrightarrow> \<forall>k\<in>set privs. 1 \<le> D k \<and> D k < n \<Longrightarrow>
         CollPrivKey_loop n privs acc = Inr ((acc + sum_list (map D privs)) mod n)"
proof (induction privs arbitrary: acc)
  case Nil
  then show ?case by simp
next
  case (Cons k privs)
  let ?s = "acc + D k"
  have d: "1 \<le> D k" "D k < n" using Cons.prems(3) by simp_all
  have rest: "\<forall>k\<in>set privs. 1 \<le> D k \<and> D k < n" using Cons.prems(3) by simp
  have m: "0 \<le> ?s mod n" "?s mod n < n" using assms by simp_all
  have "CollPrivKey_loop n (k # privs) acc = CollPrivKey_loop n privs (?s mod n)"
  proof (cases "n \<le> ?s")
    case True
    then show ?thesis using assms by (simp add: Mod_def)
  next
    case False
    then have "?s mod n = ?s" using Cons.prems(1) d by simp
    with False show ?thesis by simp
  qed
  also have "\<dots> = Inr ((?s mod n + sum_list (map D privs)) mod n)"
    using Cons.IH [OF m rest] .
  also have "(?s mod n + sum_list (map D privs)) mod n = (acc + sum_list (map D (k # privs))) mod n"
    by (simp add: mod_add_left_eq add.assoc)
  finally show ?case .
qed

lemma CollPubKey_loop_fields:
  assumes "group_ok c"
  shows "valid c (coords acc) \<Longrightarrow> \<forall>p\<in>set pubs. valid c (coords p) \<Longrightarrow>
         Curve (CollPubKey_loop c acc pubs) = Curve acc \<and>
         coords (CollPubKey_loop c acc pubs) = add c (coords acc) (psum c (map coords pubs))"
proof (induction pubs arbitrary: acc)
  case Nil
  then show ?case using assms by (simp add: add_zero_right)
next
  case (Cons p pubs)
  let ?a = "add c (coords acc) (coords p)"
  let ?acc = "acc\<lparr>X := fst ?a, Y := snd ?a\<rparr>"
  have p: "valid c (coords p)" and rest: "\<forall>p\<in>set pubs. valid c (coords p)"
    using Cons.prems(2) by simp_all
  have vs: "\<forall>q\<in>set (map coords pubs). valid c q" using rest by simp
  have step: "CollPubKey_loop c acc (p # pubs) = CollPubKey_loop c ?acc pubs"
    by (simp add: Add_add split: prod.splits)
  have a: "coords ?acc = ?a" by (simp add: coords_def)
  have "valid c (coords ?acc)"
    unfolding a using assms Cons.prems(1) p by (simp add: add_closed)
  from Cons.IH [OF this rest]
  have ih: "Curve (CollPubKey_loop c ?acc pubs) = Curve acc"
    "coords (CollPubKey_loop c ?acc pubs) = add c ?a (psum c (map coords pubs))"
    unfolding a by simp_all
  show ?case
    unfolding step ih using assms Cons.prems(1) p vs by (simp add: add_assoc psum_valid)
qed

lemma psum_keys:
  assumes "curve_ok c"
  shows "\<forall>k\<in>set privs. key_ok c k \<Longrightarrow>
         psum c (map coords privs) = mul c (nat (sum_list (map D privs))) (base c)
         \<and> 0 \<le> sum_list (map D privs)"
proof (induction privs)
  case Nil
  then show ?case by simp
next
  case (Cons k privs)
  have g: "group_ok c" using assms by (simp add: curve_ok_def)
  have k: "1 \<le> D k" "coords k = mul c (nat (D k)) (base c)"
    using Cons.prems ScalarBaseMult_mul [OF assms, of "D k"] by (simp_all add: key_ok_def)
  have ih: "psum c (map coords privs) = mul c (nat (sum_list (map D privs))) (base c)"
    "0 \<le> sum_list (map D privs)"
    using Cons by simp_all
  have "nat (D k + sum_list (map D privs)) = nat (D k) + nat (sum_list (map D privs))"
    using k(1) ih(2) by (simp add: nat_add_distrib)
  then show ?case
    using k ih mul_add [OF g base_valid [OF g], of "nat (D k)" "nat (sum_list (map D privs))"]
    by simp
qed

lemma key_ok_valid:
  assumes "curve_ok c" "key_ok c k"
  shows "valid c (coords k)"
proof -
  have g: "group_ok c" using assms(1) by (simp add: curve_ok_def)
  have "coords k = mul c (nat (D k)) (base c)"
    using assms(2) ScalarBaseMult_mul [OF assms(1), of "D k"] by (simp add: key_ok_def)
  then show ?thesis using mul_valid [OF g base_valid [OF g]] by simp
qed

lemma CollPrivKey_sum:
  assumes "curve_ok c" "privs \<noteq> []" "\<forall>k\<in>set privs. key_ok c k"
  shows "CollPrivKey privs =
           Inr ((hd privs)\<lparr>D := sum_list (map D privs) mod N (Params c),
                           X := fst (mul c (nat (sum_list (map D privs))) (base c)),
                           Y := snd (mul c (nat (sum_list (map D privs))) (base c))\<rparr>)"
proof -
  have g: "group_ok c" using assms(1) by (simp add: curve_ok_def)
  have n: "0 < N (Params c)" using order_pos [OF g] by simp
  from assms(2) obtain k0 rest where p: "privs = k0 # rest" by (cases privs) auto
  have c0: "Curve k0 = c" using assms(3) by (simp add: p key_ok_def)
  let ?s = "sum_list (map D privs)"
  have s: "0 \<le> ?s" using psum_keys [OF assms(1,3)] by simp
  have "\<forall>k\<in>set privs. 1 \<le> D k \<and> D k < N (Params c)"
    using assms(3) by (simp add: key_ok_def)
  from CollPrivKey_loop_sum [OF n _ n this]
  have l: "CollPrivKey_loop (N (Params c)) privs 0 = Inr (?s mod N (Params c))" by simp
  have d: "0 \<le> ?s mod N (Params c)" using n by simp
  have "ScalarBaseMult c (Bytes (?s mod N (Params c))) = mul c (nat ?s) (base c)"
    using ScalarBaseMult_mul [OF assms(1) d] mul_int_mod [OF g base_valid [OF g] s] by simp
  then show ?thesis
    using l by (simp add: CollPrivKey_def p c0 split: prod.splits)
qed

lemma CollPubKey_sum:
  assumes "curve_ok c" "privs \<noteq> []" "\<forall>k\<in>set privs. key_ok c k"
  shows "CollPubKey (map GetPubKey privs) =
           Inr \<lparr>Curve = c, X = fst (mul c (nat (sum_list (map D privs))) (base c)),
                Y = snd (mul c (nat (sum_list (map D privs))) (base c))\<rparr>"
proof -
  have g: "group_ok c" using assms(1) by (simp add: curve_ok_def)
  from assms(2) obtain k0 rest where p: "privs = k0 # rest" by (cases privs) auto
  have c0: "Curve k0 = c" using assms(3) by (simp add: p key_ok_def)
  have v0: "valid c (coords (GetPubKey k0))"
    using key_ok_valid [OF assms(1)] assms(3) by (simp add: p)
  have vs: "\<forall>q\<in>set (map GetPubKey rest). valid c (coords q)"
    using key_ok_valid [OF assms(1)] assms(3) by (simp add: p)
  let ?r = "CollPubKey_loop c (GetPubKey k0) (map GetPubKey rest)"
  from CollPubKey_loop_fields [OF g v0 vs]
  have "Curve ?r = c" "coords ?r = psum c (map coords privs)"
    by (simp_all add: c0 p comp_def)
  then have "Curve ?r = c" "coords ?r = mul c (nat (sum_list (map D privs))) (base c)"
    using psum_keys [OF assms(1,3)] by simp_all
  then have "?r = \<lparr>Curve = c, X = fst (mul c (nat (sum_list (map D privs))) (base c)),
                Y = snd (mul c (nat (sum_list (map D privs))) (base c))\<rparr>"
    by (intro point_eqI) (simp_all add: coords_def)
  then show ?thesis by (simp add: CollPubKey_def p c0)
qed

text \<open>
  C4.  For a non-empty list of well-formed private keys of one curve,
  \<open>CollPrivKey\<close> returns the key whose scalar is the sum of the scalars
  modulo \<open>N\<close>, and its public key is what \<open>CollPubKey\<close> returns for the
  list of public keys.
\<close>

theorem aggregation_homomorphism:
  assumes "curve_ok c" and "privs \<noteq> []" and "\<forall>k\<in>set privs. key_ok c k"
  shows "\<exists>k. CollPrivKey privs = Inr k
           \<and> D k = sum_list (map D privs) mod N (Params c)
           \<and> coords k = ScalarBaseMult c (Bytes (D k))
           \<and> CollPubKey (map GetPubKey privs) = Inr (GetPubKey k)"
proof -
  have g: "group_ok c" using assms(1) by (simp add: curve_ok_def)
  let ?s = "sum_list (map D privs)"
  let ?k = "(hd privs)\<lparr>D := ?s mod N (Params c),
                         X := fst (mul c (nat ?s) (base c)),
                         Y := snd (mul c (nat ?s) (base c))\<rparr>"
  have c0: "Curve (hd privs) = c" using assms(2,3) by (cases privs) (auto simp: key_ok_def)
  have s: "0 \<le> ?s" using psum_keys [OF assms(1,3)] by simp
  have d: "0 \<le> ?s mod N (Params c)" using order_pos [OF g] by simp
  have b: "ScalarBaseMult c (Bytes (?s mod N (Params c))) = mul c (nat ?s) (base c)"
    using ScalarBaseMult_mul [OF assms(1) d] mul_int_mod [OF g base_valid [OF g] s] by simp
  have "GetPubKey ?k = \<lparr>Curve = c, X = fst (mul c (nat ?s) (base c)),
                         Y = snd (mul c (nat ?s) (base c))\<rparr>"
    by (intro point_eqI) (simp_all add: coords_def c0)
  then have "CollPubKey (map GetPubKey privs) = Inr (GetPubKey ?k)"
    using CollPubKey_sum [OF assms] by simp
  moreover have "coords ?k = ScalarBaseMult c (Bytes (D ?k))"
    using b by (simp add: coords_def)
  ultimately show ?thesis
    using CollPrivKey_sum [OF assms] by (intro exI [of _ ?k]) simp
qed

lemma tiny_key_ok: "1 \<le> d \<Longrightarrow> d < 7 \<Longrightarrow> key_ok tiny (tiny_key d)"
proof -
  assume d: "1 \<le> d" "d < 7"
  have "nat (\<bar>d\<bar> mod 7) = nat d" using d by simp
  then show ?thesis
    using d tiny_exp_mod [of "nat d"]
    by (simp add: key_ok_def tiny_key_def coords_def tiny_ScalarMult_def SetBytes_Bytes
        tiny_log_def)
qed

theorem aggregation_homomorphism_witness:
  "curve_ok tiny \<and> key_ok tiny (tiny_key 3) \<and> key_ok tiny (tiny_key 6) \<and>
   key_ok tiny (tiny_key 5) \<and>
   (\<exists>k. CollPrivKey [tiny_key 3, tiny_key 6, tiny_key 5] = Inr k \<and> D k = 0 \<and>
        CollPubKey (map GetPubKey [tiny_key 3, tiny_key 6, tiny_key 5]) = Inr (GetPubKey k))"
proof -
  have k: "\<forall>k\<in>set [tiny_key 3, tiny_key 6, tiny_key 5]. key_ok tiny k"
    by (simp add: tiny_key_ok)
  have ne: "[tiny_key 3, tiny_key 6, tiny_key 5] \<noteq> []" by simp
  from aggregation_homomorphism [OF tiny_curve_ok ne k] tiny_curve_ok k
  show ?thesis by (auto simp: tiny_key_def)
qed

subsection \<open>Encryption and decryption\<close>

lemma randFieldElement_enough:
  assumes "curve_ok c" and "nat (BitSize (Params c) div 8 + 8) \<le> length random"
  shows "\<exists>r random'. randFieldElement c random = Inr (r, random')"
proof -
  have "2 \<le> N (Params c)" "0 \<le> BitSize (Params c)"
    using assms(1) by (simp_all add: curve_ok_def group_ok_def)
  from randFieldElement_eq [OF this, of random] assms(2) show ?thesis by simp
qed

lemma randFieldElement_pos:
  assumes "curve_ok c" and "randFieldElement c random = Inr (r, random')"
  shows "1 \<le> r" and "r < N (Params c)"
proof -
  have "2 \<le> N (Params c)" "0 \<le> BitSize (Params c)"
    using assms(1) by (simp_all add: curve_ok_def group_ok_def)
  from randFieldElement_range [OF this assms(2)] show "1 \<le> r" "r < N (Params c)"
    by simp_all
qed

lemma PointEncrypt_result:
  assumes "curve_ok c" and "Curve pub = c" and "valid c (coords pub)"
    and "randFieldElement c random = Inr (r, random')"
  shows "PointEncrypt pub pt random =
           Inr (\<lparr>K = \<lparr>Curve = c, X = fst (mul c (nat r) (base c)),
                       Y = snd (mul c (nat r) (base c))\<rparr>,
                  C = \<lparr>Curve = c,
                       X = fst (add c (mul c (nat r) (coords pub)) (coords pt)),
                       Y = snd (add c (mul c (nat r) (coords pub)) (coords pt))\<rparr>\<rparr>,
                random')"
proof -
  have r: "0 \<le> r" using randFieldElement_pos [OF assms(1,4)] by simp
  have b: "ScalarBaseMult c (Bytes r) = mul c (nat r) (base c)"
    using ScalarBaseMult_mul [OF assms(1) r] .
  have m: "ScalarMult c (X pub) (Y pub) (Bytes r) = mul c (nat r) (coords pub)"
    using ScalarMult_mul [OF assms(1,3) r] .
  show ?thesis
    by (simp add: PointEncrypt_def assms(2,4) b m add_def coords_def split: prod.splits)
qed

lemma PointDecrypt_result:
  assumes "curve_ok c" and "Curve priv = c" and "0 \<le> D priv" and "valid c (coords (K ct))"
  shows "PointDecrypt ct priv =
           Inr \<lparr>Curve = c,
                X = fst (add c (coords (C ct)) (neg c (mul c (nat (D priv)) (coords (K ct))))),
                Y = snd (add c (coords (C ct)) (neg c (mul c (nat (D priv)) (coords (K ct)))))\<rparr>"
proof -
  have p: "0 < P (Params c)" using assms(1) by (simp add: curve_ok_def group_ok_def)
  have m: "ScalarMult c (X (K ct)) (Y (K ct)) (Bytes (D priv)) = mul c (nat (D priv)) (coords (K ct))"
    using ScalarMult_mul [OF assms(1,4,3)] .
  show ?thesis
    using p by (simp add: PointDecrypt_def assms(2) m Mod_def add_def neg_def coords_def
        split: prod.splits)
qed

lemma PointDecrypt_ppks_eq:
  assumes "add_reduces (Curve priv)" and "0 < P (Params (Curve priv))"
  shows "PointDecrypt_ppks ct priv = PointDecrypt ct priv"
proof -
  let ?c = "Curve priv" and ?p = "P (Params (Curve priv))"
  have red: "Add ?c x y u w = Add ?c (x mod ?p) (y mod ?p) (u mod ?p) (w mod ?p)" for x y u w
    using assms(1) unfolding add_reduces_def by blast
  have "Add ?c x y u (- v) = Add ?c x y u (- v mod ?p)" for x y u v
  proof -
    have "Add ?c x y u (- v) = Add ?c (x mod ?p) (y mod ?p) (u mod ?p) (- v mod ?p)"
      by (rule red)
    also have "\<dots> = Add ?c (x mod ?p) (y mod ?p) (u mod ?p) (- v mod ?p mod ?p)"
      by simp
    also have "\<dots> = Add ?c x y u (- v mod ?p)"
      by (rule red [symmetric])
    finally show ?thesis .
  qed
  then show ?thesis
    using assms(2) by (simp add: PointDecrypt_ppks_def PointDecrypt_def Mod_def split: prod.splits)
qed

lemma decrypt_cancel:
  assumes "group_ok c" "valid c b" "valid c pt"
  shows "add c (add c (mul c r (mul c d b)) pt) (neg c (mul c d (mul c r b))) = pt"
proof -
  let ?t = "mul c r (mul c d b)"
  have "mul c d (mul c r b) = mul c (d * r) b"
    using assms by (simp add: mul_mult)
  also have "\<dots> = mul c (r * d) b"
    by (simp add: mult.commute)
  also have "\<dots> = ?t"
    using assms by (simp add: mul_mult)
  finally have e: "mul c d (mul c r b) = ?t" .
  have v: "valid c ?t" using assms by (simp add: mul_valid)
  have "add c (add c ?t pt) (neg c ?t) = add c (add c pt ?t) (neg c ?t)"
    using assms v by (simp add: add_comm [of c ?t pt])
  also have "\<dots> = pt"
    using assms v by (simp add: add_neg_cancel)
  finally show ?thesis unfolding e .
qed

lemma PointEncrypt_cases:
  assumes "PointEncrypt pub pt random = Inr (ct, random')"
  obtains r where "randFieldElement (Curve pub) random = Inr (r, random')"
  using assms by (auto simp: PointEncrypt_def Let_def split: sum.splits prod.splits)

lemma key_ok_coords:
  assumes "curve_ok c" "key_ok c k"
  shows "coords k = mul c (nat (D k)) (base c)"
  using assms(2) ScalarBaseMult_mul [OF assms(1), of "D k"] by (simp add: key_ok_def)

lemma roundtrip:
  assumes "curve_ok c" and "key_ok c priv" and "on_curve c pt"
    and "PointEncrypt (GetPubKey priv) pt random = Inr (ct, random')"
  shows "PointDecrypt ct priv = Inr pt"
proof -
  have g: "group_ok c" using assms(1) by (simp add: curve_ok_def)
  have k: "Curve priv = c" "0 \<le> D priv" using assms(2) by (simp_all add: key_ok_def)
  have pt: "Curve pt = c" "valid c (coords pt)" using assms(3) by (simp_all add: on_curve_def)
  have pub: "Curve (GetPubKey priv) = c" "valid c (coords (GetPubKey priv))"
    using k key_ok_valid [OF assms(1,2)] by simp_all
  from assms(4) obtain r where r: "randFieldElement c random = Inr (r, random')"
    using pub(1) by (auto elim: PointEncrypt_cases)
  let ?b = "base c" and ?d = "nat (D priv)"
  from PointEncrypt_result [OF assms(1) pub r, of pt] assms(4)
  have ct: "coords (K ct) = mul c (nat r) ?b"
    "coords (C ct) = add c (mul c (nat r) (mul c ?d ?b)) (coords pt)"
    using key_ok_coords [OF assms(1,2)] by (auto simp: coords_def)
  have vk: "valid c (coords (K ct))"
    unfolding ct using g by (simp add: mul_valid base_valid)
  have "add c (coords (C ct)) (neg c (mul c ?d (coords (K ct)))) = coords pt"
    unfolding ct using g pt(2) by (simp add: decrypt_cancel base_valid)
  then have "PointDecrypt ct priv = Inr \<lparr>Curve = c, X = fst (coords pt), Y = snd (coords pt)\<rparr>"
    using PointDecrypt_result [OF assms(1) k vk] by simp
  moreover have "\<lparr>Curve = c, X = fst (coords pt), Y = snd (coords pt)\<rparr> = pt"
    using pt(1) by (intro point_eqI) (simp_all add: coords_def)
  ultimately show ?thesis by simp
qed

lemma PointEncrypt_enough:
  assumes "curve_ok c" and "Curve pub = c"
    and "nat (BitSize (Params c) div 8 + 8) \<le> length random"
  shows "\<exists>ct random'. PointEncrypt pub pt random = Inr (ct, random')"
proof -
  from randFieldElement_enough [OF assms(1,3)] obtain r random'
    where "randFieldElement c random = Inr (r, random')" by blast
  then show ?thesis
    by (simp add: PointEncrypt_def assms(2) split: prod.splits)
qed

text \<open>
  C2.  For a well-formed key pair and a point of the curve: with enough
  random bytes \<open>PointEncrypt\<close> returns a ciphertext, and every ciphertext
  it returns is decrypted by \<open>PointDecrypt\<close> (which reduces the negated
  ordinate modulo \<open>P\<close>) to the point that was encrypted.  The decryption
  of \<open>ppks.go\<close>, which does not reduce, gives the same result on a
  backend whose \<open>Add\<close> takes its arguments modulo \<open>P\<close>.
\<close>

theorem encrypt_decrypt_roundtrip:
  assumes "curve_ok c" and "key_ok c priv" and "on_curve c pt"
  shows "(nat (BitSize (Params c) div 8 + 8) \<le> length random \<longrightarrow>
            (\<exists>ct random'. PointEncrypt (GetPubKey priv) pt random = Inr (ct, random')))
       \<and> (\<forall>ct random'. PointEncrypt (GetPubKey priv) pt random = Inr (ct, random') \<longrightarrow>
            PointDecrypt ct priv = Inr pt
            \<and> (add_reduces c \<longrightarrow> PointDecrypt_ppks ct priv = Inr pt))"
proof (intro conjI allI impI)
  assume "nat (BitSize (Params c) div 8 + 8) \<le> length random"
  moreover have "Curve (GetPubKey priv) = c" using assms(2) by (simp add: key_ok_def)
  ultimately show "\<exists>ct random'. PointEncrypt (GetPubKey priv) pt random = Inr (ct, random')"
    using PointEncrypt_enough [OF assms(1)] by blast
next
  fix ct random'
  assume e: "PointEncrypt (GetPubKey priv) pt random = Inr (ct, random')"
  show d: "PointDecrypt ct priv = Inr pt"
    using roundtrip [OF assms e] .
  assume "add_reduces c"
  moreover have "Curve priv = c" using assms(2) by (simp add: key_ok_def)
  moreover have "0 < P (Params c)" using assms(1) by (simp add: curve_ok_def group_ok_def)
  ultimately show "PointDecrypt_ppks ct priv = Inr pt"
    using PointDecrypt_ppks_eq [of priv ct] d by simp
qed

theorem encrypt_decrypt_roundtrip_witness:
  "curve_ok tiny \<and> key_ok tiny (tiny_key 3) \<and> on_curve tiny (tiny_point 0 4) \<and>
   add_reduces tiny \<and>
   PointEncrypt (GetPubKey (tiny_key 3)) (tiny_point 0 4) [0, 0, 0, 0, 0, 0, 0, 2] =
     Inr (\<lparr>K = tiny_point 3 3, C = tiny_point 0 1\<rparr>, []) \<and>
   PointDecrypt \<lparr>K = tiny_point 3 3, C = tiny_point 0 1\<rparr> (tiny_key 3) =
     Inr (tiny_point 0 4) \<and>
   PointDecrypt_ppks \<lparr>K = tiny_point 3 3, C = tiny_point 0 1\<rparr> (tiny_key 3) =
     Inr (tiny_point 0 4)"
proof -
  have k: "key_ok tiny (tiny_key 3)" by (simp add: tiny_key_ok)
  have p: "on_curve tiny (tiny_point 0 4)"
    by (simp add: tiny_point_on_curve tiny_on_curve_iff)
  have r: "randFieldElement tiny [0, 0, 0, 0, 0, 0, 0, 2] = Inr (3, [])"
    by code_simp
  have m: "mul tiny (nat 3) (base tiny) = (3, 3)"
    "add tiny (mul tiny (nat 3) (coords (GetPubKey (tiny_key 3)))) (coords (tiny_point 0 4)) = (0, 1)"
    by code_simp+
  have "Curve (GetPubKey (tiny_key 3)) = tiny" "valid tiny (coords (GetPubKey (tiny_key 3)))"
    using key_ok_valid [OF tiny_curve_ok k] by (simp_all add: tiny_key_def)
  from PointEncrypt_result [OF tiny_curve_ok this r, of "tiny_point 0 4"]
  have e: "PointEncrypt (GetPubKey (tiny_key 3)) (tiny_point 0 4) [0, 0, 0, 0, 0, 0, 0, 2] =
     Inr (\<lparr>K = tiny_point 3 3, C = tiny_point 0 1\<rparr>, [])"
    unfolding m by (simp add: tiny_point_def)
  from encrypt_decrypt_roundtrip [OF tiny_curve_ok k p, of "[0, 0, 0, 0, 0, 0, 0, 2]"]
    tiny_curve_ok k p e tiny_add_reduces
  show ?thesis by simp
qed

subsection \<open>Completeness of the share proof\<close>

lemma add_swap4:
  assumes "group_ok c" "valid c a1" "valid c a2" "valid c b1" "valid c b2"
  shows "add c (add c a1 a2) (add c b1 b2) = add c (add c a1 b1) (add c a2 b2)"
proof -
  have "add c (add c a1 a2) (add c b1 b2) = add c a1 (add c a2 (add c b1 b2))"
    using assms by (simp add: add_assoc add_closed)
  also have "add c a2 (add c b1 b2) = add c b1 (add c a2 b2)"
    using assms by (simp add: add_left_comm [of c a2 b1 b2])
  also have "add c a1 (add c b1 (add c a2 b2)) = add c (add c a1 b1) (add c a2 b2)"
    using assms by (simp add: add_assoc add_closed)
  finally show ?thesis .
qed

lemma response_value:
  assumes "response n cc y v = Inr r" and "0 < n"
  shows "r = (v - cc * y mod n) mod n"
  using assms by (simp add: response_def Mod_def split: if_splits)

lemma response_mul:
  assumes "group_ok c" and "valid c p" and "0 \<le> y" and "0 \<le> v" and "0 \<le> cc"
    and "response (N (Params c)) cc y v = Inr r"
  shows "add c (mul c (nat r) p) (mul c (nat cc) (mul c (nat y) p)) = mul c (nat v) p"
proof -
  let ?n = "N (Params c)"
  have n: "0 < ?n" using order_pos [OF assms(1)] by simp
  have r: "r = (v - cc * y mod ?n) mod ?n" using response_value [OF assms(6) n] .
  have r0: "0 \<le> r" unfolding r using n by simp
  have "(r + cc * y) mod ?n = ((v - cc * y) mod ?n + cc * y) mod ?n"
    unfolding r by (simp add: mod_diff_right_eq)
  also have "\<dots> = (v - cc * y + cc * y) mod ?n"
    by (simp only: mod_add_left_eq)
  finally have e: "(r + cc * y) mod ?n = v mod ?n" by simp
  have s: "nat r + nat cc * nat y = nat (r + cc * y)"
    using r0 assms(3,5) by (simp add: nat_add_distrib nat_mult_distrib)
  have "add c (mul c (nat r) p) (mul c (nat cc) (mul c (nat y) p)) =
        mul c (nat r + nat cc * nat y) p"
    using assms(1,2) by (simp add: mul_add mul_mult)
  also have "\<dots> = mul c (nat ((r + cc * y) mod ?n)) p"
    unfolding s using mul_int_mod [OF assms(1,2), of "r + cc * y"] r0 assms(3,5) by simp
  also have "\<dots> = mul c (nat v) p"
    unfolding e using mul_int_mod [OF assms(1,2,4)] .
  finally show ?thesis .
qed

lemma ProofGen_cases:
  assumes "ProofGen sm3 y1 y2 B Y1 Y2 A1 A2 A random = Inr (cc, r1, r2, random2)"
  obtains v1 v2 random1 where
    "randFieldElement (Curve Y1) random = Inr (v1, random1)"
    "randFieldElement (Curve Y1) random1 = Inr (v2, random2)"
    "cc = challenge sm3
            [X B, Y B, X Y1, Y Y1, X Y2, Y Y2, X A1, Y A1, X A2, Y A2, X A, Y A,
             fst (ScalarMult (Curve Y1) (X B) (Y B) (Bytes v1)),
             snd (ScalarMult (Curve Y1) (X B) (Y B) (Bytes v1)),
             fst (ScalarMult (Curve Y1) (X B) (Y B) (Bytes v2)),
             snd (ScalarMult (Curve Y1) (X B) (Y B) (Bytes v2)),
             fst (add (Curve Y1) (ScalarMult (Curve Y1) (X A1) (Y A1) (Bytes v1))
                    (ScalarMult (Curve Y1) (X A2) (Y A2) (Bytes v2))),
             snd (add (Curve Y1) (ScalarMult (Curve Y1) (X A1) (Y A1) (Bytes v1))
                    (ScalarMult (Curve Y1) (X A2) (Y A2) (Bytes v2)))]"
    "response (N (Params (Curve Y1))) cc y1 v1 = Inr r1"
    "response (N (Params (Curve Y1))) cc y2 v2 = Inr r2"
  using assms
  by (auto simp: ProofGen_def Let_def add_def split: sum.splits prod.splits)

lemma ProofVrf_eq:
  "ProofVrf sm3 cc r1 r2 B Y1 Y2 A1 A2 A =
     Inr (cc = challenge sm3
            [X B, Y B, X Y1, Y Y1, X Y2, Y Y2, X A1, Y A1, X A2, Y A2, X A, Y A,
             fst (add (Curve Y1) (ScalarMult (Curve Y1) (X B) (Y B) (Bytes r1))
                    (ScalarMult (Curve Y1) (X Y1) (Y Y1) (Bytes cc))),
             snd (add (Curve Y1) (ScalarMult (Curve Y1) (X B) (Y B) (Bytes r1))
                    (ScalarMult (Curve Y1) (X Y1) (Y Y1) (Bytes cc))),
             fst (add (Curve Y1) (ScalarMult (Curve Y1) (X B) (Y B) (Bytes r2))
                    (ScalarMult (Curve Y1) (X Y2) (Y Y2) (Bytes cc))),
             snd (add (Curve Y1) (ScalarMult (Curve Y1) (X B) (Y B) (Bytes r2))
                    (ScalarMult (Curve Y1) (X Y2) (Y Y2) (Bytes cc))),
             fst (add (Curve Y1)
                    (add (Curve Y1) (ScalarMult (Curve Y1) (X A1) (Y A1) (Bytes r1))
                       (ScalarMult (Curve Y1) (X A2) (Y A2) (Bytes r2)))
                    (ScalarMult (Curve Y1) (X A) (Y A) (Bytes cc))),
             snd (add (Curve Y1)
                    (add (Curve Y1) (ScalarMult (Curve Y1) (X A1) (Y A1) (Bytes r1))
                       (ScalarMult (Curve Y1) (X A2) (Y A2) (Bytes r2)))
                    (ScalarMult (Curve Y1) (X A) (Y A) (Bytes cc)))])"
  by (simp add: ProofVrf_def Let_def add_def split: prod.splits)

lemma proof_complete:
  assumes "curve_ok c" and "Curve Y1 = c"
    and "valid c (coords B)" and "valid c (coords A1)" and "valid c (coords A2)"
    and "0 \<le> y1" and "0 \<le> y2"
    and "coords Y1 = mul c (nat y1) (coords B)"
    and "coords Y2 = mul c (nat y2) (coords B)"
    and "coords A = add c (mul c (nat y1) (coords A1)) (mul c (nat y2) (coords A2))"
    and "ProofGen sm3 y1 y2 B Y1 Y2 A1 A2 A random = Inr (cc, r1, r2, random2)"
  shows "ProofVrf sm3 cc r1 r2 B Y1 Y2 A1 A2 A = Inr True"
proof -
  have g: "group_ok c" using assms(1) by (simp add: curve_ok_def)
  have n: "0 < N (Params c)" using order_pos [OF g] by simp
  let ?b = "coords B" and ?a1 = "coords A1" and ?a2 = "coords A2"
  from assms(11) obtain v1 v2 random1 where
    v1: "randFieldElement c random = Inr (v1, random1)" and
    v2: "randFieldElement c random1 = Inr (v2, random2)" and
    cc: "cc = challenge sm3
            [X B, Y B, X Y1, Y Y1, X Y2, Y Y2, X A1, Y A1, X A2, Y A2, X A, Y A,
             fst (ScalarMult c (X B) (Y B) (Bytes v1)),
             snd (ScalarMult c (X B) (Y B) (Bytes v1)),
             fst (ScalarMult c (X B) (Y B) (Bytes v2)),
             snd (ScalarMult c (X B) (Y B) (Bytes v2)),
             fst (add c (ScalarMult c (X A1) (Y A1) (Bytes v1))
                    (ScalarMult c (X A2) (Y A2) (Bytes v2))),
             snd (add c (ScalarMult c (X A1) (Y A1) (Bytes v1))
                    (ScalarMult c (X A2) (Y A2) (Bytes v2)))]" and
    r1: "response (N (Params c)) cc y1 v1 = Inr r1" and
    r2: "response (N (Params c)) cc y2 v2 = Inr r2"
    unfolding assms(2) [symmetric] by (rule ProofGen_cases)
  have p: "0 \<le> v1" "0 \<le> v2"
    using randFieldElement_pos [OF assms(1) v1] randFieldElement_pos [OF assms(1) v2]
    by simp_all
  have c0: "0 \<le> cc" unfolding cc using challenge_range by simp
  have r0: "0 \<le> r1" "0 \<le> r2"
    using response_range [OF r1 n] response_range [OF r2 n] by simp_all
  have vy: "valid c (coords Y1)" "valid c (coords Y2)" "valid c (coords A)"
    unfolding assms(8,9,10) using g assms(3,4,5) by (simp_all add: mul_valid add_closed)
  note sm = ScalarMult_mul [OF assms(1)]
  have t1: "add c (ScalarMult c (X B) (Y B) (Bytes r1)) (ScalarMult c (X Y1) (Y Y1) (Bytes cc))
            = ScalarMult c (X B) (Y B) (Bytes v1)"
    unfolding sm [OF assms(3) r0(1)] sm [OF vy(1) c0] sm [OF assms(3) p(1)] assms(8)
    using response_mul [OF g assms(3,6) p(1) c0 r1] .
  have t2: "add c (ScalarMult c (X B) (Y B) (Bytes r2)) (ScalarMult c (X Y2) (Y Y2) (Bytes cc))
            = ScalarMult c (X B) (Y B) (Bytes v2)"
    unfolding sm [OF assms(3) r0(2)] sm [OF vy(2) c0] sm [OF assms(3) p(2)] assms(9)
    using response_mul [OF g assms(3,7) p(2) c0 r2] .
  have "add c (add c (mul c (nat r1) ?a1) (mul c (nat r2) ?a2))
          (mul c (nat cc) (add c (mul c (nat y1) ?a1) (mul c (nat y2) ?a2)))
        = add c (add c (mul c (nat r1) ?a1) (mul c (nat r2) ?a2))
            (add c (mul c (nat cc) (mul c (nat y1) ?a1)) (mul c (nat cc) (mul c (nat y2) ?a2)))"
    using g assms(4,5) by (simp add: mul_add_point mul_valid)
  also have "\<dots> = add c (add c (mul c (nat r1) ?a1) (mul c (nat cc) (mul c (nat y1) ?a1)))
                      (add c (mul c (nat r2) ?a2) (mul c (nat cc) (mul c (nat y2) ?a2)))"
    using g assms(4,5) by (intro add_swap4) (simp_all add: mul_valid)
  also have "\<dots> = add c (mul c (nat v1) ?a1) (mul c (nat v2) ?a2)"
    unfolding response_mul [OF g assms(4,6) p(1) c0 r1] response_mul [OF g assms(5,7) p(2) c0 r2]
    by (rule refl)
  finally have t3: "add c
          (add c (ScalarMult c (X A1) (Y A1) (Bytes r1)) (ScalarMult c (X A2) (Y A2) (Bytes r2)))
          (ScalarMult c (X A) (Y A) (Bytes cc))
        = add c (ScalarMult c (X A1) (Y A1) (Bytes v1)) (ScalarMult c (X A2) (Y A2) (Bytes v2))"
    unfolding sm [OF assms(4) r0(1)] sm [OF assms(5) r0(2)] sm [OF vy(3) c0]
      sm [OF assms(4) p(1)] sm [OF assms(5) p(2)] assms(10) .
  show ?thesis
    unfolding ProofVrf_eq assms(2) t1 t2 t3 using cc by simp
qed

lemma randFieldElement_rest:
  assumes "curve_ok c" and "randFieldElement c random = Inr (r, random')"
  shows "length random' = length random - nat (BitSize (Params c) div 8 + 8)"
proof -
  have "2 \<le> N (Params c)" "0 \<le> BitSize (Params c)"
    using assms(1) by (simp_all add: curve_ok_def group_ok_def)
  from randFieldElement_eq [OF this, of random] assms(2) show ?thesis
    by (auto split: if_splits)
qed

lemma response_eq: "0 < n \<Longrightarrow> response n cc y v = Inr ((v - cc * y mod n) mod n)"
  by (simp add: response_def Mod_def)

lemma ProofGen_enough:
  assumes "curve_ok (Curve Y1)"
    and "2 * nat (BitSize (Params (Curve Y1)) div 8 + 8) \<le> length random"
  shows "\<exists>cc r1 r2 random2.
           ProofGen sm3 y1 y2 B Y1 Y2 A1 A2 A random = Inr (cc, r1, r2, random2)"
proof -
  let ?c = "Curve Y1"
  have n: "0 < N (Params ?c)" using assms(1) by (simp add: curve_ok_def group_ok_def)
  from assms(2) have "nat (BitSize (Params ?c) div 8 + 8) \<le> length random" by simp
  from randFieldElement_enough [OF assms(1) this] obtain v1 random1
    where v1: "randFieldElement ?c random = Inr (v1, random1)" by blast
  have "nat (BitSize (Params ?c) div 8 + 8) \<le> length random1"
    using randFieldElement_rest [OF assms(1) v1] assms(2) by linarith
  from randFieldElement_enough [OF assms(1) this] obtain v2 random2
    where v2: "randFieldElement ?c random1 = Inr (v2, random2)" by blast
  show ?thesis
    by (simp add: ProofGen_def Let_def v1 v2 response_eq [OF n] split: prod.splits)
qed

lemma negated_result:
  assumes "0 < P (Params c)"
  shows "negated c rB = Inr \<lparr>Curve = Curve rB, X = fst (neg c (coords rB)),
                              Y = snd (neg c (coords rB))\<rparr>"
  using assms by (simp add: negated_def Mod_def neg_def coords_def)

lemma ShareCal_cases:
  assumes "ShareCal targetPubKey rB priv random = Inr (share, ri, random1)"
  obtains "randFieldElement (Curve priv) random = Inr (ri, random1)"
  using assms by (auto simp: ShareCal_def Let_def split: sum.splits prod.splits)

lemma ShareCal_result:
  assumes "curve_ok c" and "Curve priv = c" and "0 \<le> D priv"
    and "valid c (coords targetPubKey)" and "valid c (coords rB)"
    and "randFieldElement c random = Inr (ri, random1)"
  shows "ShareCal targetPubKey rB priv random =
           Inr (\<lparr>K = \<lparr>Curve = c, X = fst (mul c (nat ri) (base c)),
                       Y = snd (mul c (nat ri) (base c))\<rparr>,
                  C = \<lparr>Curve = c,
                       X = fst (add c (neg c (mul c (nat (D priv)) (coords rB)))
                                  (mul c (nat ri) (coords targetPubKey))),
                       Y = snd (add c (neg c (mul c (nat (D priv)) (coords rB)))
                                  (mul c (nat ri) (coords targetPubKey)))\<rparr>\<rparr>,
                ri, random1)"
proof -
  have p: "0 < P (Params c)" using assms(1) by (simp add: curve_ok_def group_ok_def)
  have r: "0 \<le> ri" using randFieldElement_pos [OF assms(1,6)] by simp
  have b: "ScalarBaseMult c (Bytes ri) = mul c (nat ri) (base c)"
    using ScalarBaseMult_mul [OF assms(1) r] .
  have m: "ScalarMult c (X rB) (Y rB) (Bytes (D priv)) = mul c (nat (D priv)) (coords rB)"
    using ScalarMult_mul [OF assms(1,5,3)] .
  have u: "ScalarMult c (X targetPubKey) (Y targetPubKey) (Bytes ri) =
           mul c (nat ri) (coords targetPubKey)"
    using ScalarMult_mul [OF assms(1,4) r] .
  show ?thesis
    using p by (simp add: ShareCal_def assms(2,6) b m u Mod_def add_def neg_def
        split: prod.splits)
qed

lemma share_proof_sound_run:
  assumes "curve_ok c" and "key_ok c priv" and "on_curve c targetPubKey" and "on_curve c rB"
    and "ShareCal targetPubKey rB priv random = Inr (share, ri, random1)"
    and "ShareProofGen sm3 ri priv share targetPubKey rB random1 = Inr (cc, r1, r2, random2)"
  shows "ShareProofVry sm3 cc r1 r2 share (GetPubKey priv) targetPubKey rB = Inr True"
proof -
  have g: "group_ok c" using assms(1) by (simp add: curve_ok_def)
  have p: "0 < P (Params c)" using prime_pos [OF g] .
  have k: "Curve priv = c" "0 \<le> D priv" using assms(2) by (simp_all add: key_ok_def)
  have q: "Curve targetPubKey = c" "valid c (coords targetPubKey)"
    using assms(3) by (simp_all add: on_curve_def)
  have rb: "valid c (coords rB)" using assms(4) by (simp add: on_curve_def)
  from assms(5) have ri: "randFieldElement c random = Inr (ri, random1)"
    using k(1) by (auto elim: ShareCal_cases)
  have ri0: "0 \<le> ri" using randFieldElement_pos [OF assms(1) ri] by simp
  let ?d = "nat (D priv)"
  from ShareCal_result [OF assms(1) k q(2) rb ri] assms(5)
  have sh: "Curve (K share) = c" "coords (K share) = mul c (nat ri) (base c)"
    "coords (C share) = add c (neg c (mul c ?d (coords rB))) (mul c (nat ri) (coords targetPubKey))"
    by (auto simp: coords_def)
  let ?B = "\<lparr>Curve = c, X = Gx (Params c), Y = Gy (Params c)\<rparr>"
  let ?A2 = "\<lparr>Curve = Curve rB, X = fst (neg c (coords rB)), Y = snd (neg c (coords rB))\<rparr>"
  have b: "coords ?B = base c" by (simp add: coords_def base_def)
  have a2: "coords ?A2 = neg c (coords rB)" by (simp add: coords_def)
  have gen: "ProofGen sm3 ri (D priv) ?B (K share) (GetPubKey priv) targetPubKey ?A2 (C share)
               random1 = Inr (cc, r1, r2, random2)"
    using assms(6) by (simp add: ShareProofGen_def k(1) negated_result [OF p])
  have "add c (neg c (mul c ?d (coords rB))) (mul c (nat ri) (coords targetPubKey)) =
        add c (mul c (nat ri) (coords targetPubKey)) (mul c ?d (neg c (coords rB)))"
    using g q(2) rb by (simp add: mul_neg add_comm mul_valid neg_valid)
  then have a: "coords (C share) =
        add c (mul c (nat ri) (coords targetPubKey)) (mul c ?d (coords ?A2))"
    unfolding sh a2 .
  have "ProofVrf sm3 cc r1 r2 ?B (K share) (GetPubKey priv) targetPubKey ?A2 (C share) = Inr True"
  proof (rule proof_complete [OF assms(1) sh(1) _ q(2) _ ri0 k(2) _ _ a gen])
    show "valid c (coords ?B)" unfolding b using base_valid [OF g] .
    show "valid c (coords ?A2)" unfolding a2 using neg_valid [OF g rb] .
    show "coords (K share) = mul c (nat ri) (coords ?B)" unfolding b sh ..
    show "coords (GetPubKey priv) = mul c ?d (coords ?B)"
      unfolding b using key_ok_coords [OF assms(1,2)] by simp
  qed
  then show ?thesis
    by (simp add: ShareProofVry_def q(1) negated_result [OF p])
qed

lemma ShareProofGen_enough:
  assumes "curve_ok c" and "Curve priv = c" and "Curve (K share) = c"
    and "2 * nat (BitSize (Params c) div 8 + 8) \<le> length random"
  shows "\<exists>cc r1 r2 random2.
           ShareProofGen sm3 ri priv share targetPubKey rB random = Inr (cc, r1, r2, random2)"
proof -
  have p: "0 < P (Params c)" using assms(1) by (simp add: curve_ok_def group_ok_def)
  show ?thesis
    using ProofGen_enough [of "K share" random] assms
    by (simp add: ShareProofGen_def negated_result [OF p])
qed

text \<open>
  C3.  For a well-formed key, and a requester key and a point \<open>rB\<close> on
  the curve: when \<open>ShareCal\<close> has returned a share and its nonce, then
  \<open>ShareProofGen\<close> returns a proof as long as the random source has two
  more samples, and every proof it returns is accepted by
  \<open>ShareProofVry\<close> against the public key of the prover.
\<close>

theorem share_proof_complete:
  assumes "curve_ok c" and "key_ok c priv" and "on_curve c targetPubKey" and "on_curve c rB"
    and "ShareCal targetPubKey rB priv random = Inr (share, ri, random1)"
  shows "(2 * nat (BitSize (Params c) div 8 + 8) \<le> length random1 \<longrightarrow>
            (\<exists>cc r1 r2 random2.
               ShareProofGen sm3 ri priv share targetPubKey rB random1 =
                 Inr (cc, r1, r2, random2)))
       \<and> (\<forall>cc r1 r2 random2.
             ShareProofGen sm3 ri priv share targetPubKey rB random1 =
               Inr (cc, r1, r2, random2) \<longrightarrow>
             ShareProofVry sm3 cc r1 r2 share (GetPubKey priv) targetPubKey rB = Inr True)"
proof (intro conjI allI impI)
  assume e: "2 * nat (BitSize (Params c) div 8 + 8) \<le> length random1"
  have k: "Curve priv = c" "0 \<le> D priv" using assms(2) by (simp_all add: key_ok_def)
  from assms(5) have ri: "randFieldElement c random = Inr (ri, random1)"
    using k(1) by (auto elim: ShareCal_cases)
  from ShareCal_result [OF assms(1) k _ _ ri, of targetPubKey rB] assms(3,4,5)
  have "Curve (K share) = c" by (auto simp: on_curve_def)
  from ShareProofGen_enough [OF assms(1) k(1) this e]
  show "\<exists>cc r1 r2 random2.
          ShareProofGen sm3 ri priv share targetPubKey rB random1 = Inr (cc, r1, r2, random2)" .
next
  fix cc r1 r2 random2
  assume "ShareProofGen sm3 ri priv share targetPubKey rB random1 = Inr (cc, r1, r2, random2)"
  from share_proof_sound_run [OF assms this]
  show "ShareProofVry sm3 cc r1 r2 share (GetPubKey priv) targetPubKey rB = Inr True" .
qed

lemma ShareCal_tiny_run:
  "ShareCal (tiny_point 1 2) (tiny_point 3 3) (tiny_key 3) ([0, 0, 0, 0, 0, 0, 0, 2] @ rest) =
     Inr (\<lparr>K = tiny_point 3 3, C = tiny_point 0 4\<rparr>, 3, rest)"
proof -
  have r: "randFieldElement tiny ([0, 0, 0, 0, 0, 0, 0, 2] @ rest) = Inr (3, rest)"
    using randFieldElement_eq [of tiny "[0, 0, 0, 0, 0, 0, 0, 2] @ rest"]
    by (simp add: SetBytes_def)
  have m: "mul tiny (nat 3) (base tiny) = (3, 3)"
    "add tiny (neg tiny (mul tiny (nat (D (tiny_key 3))) (coords (tiny_point 3 3))))
       (mul tiny (nat 3) (coords (tiny_point 1 2))) = (0, 4)"
    by code_simp+
  have v: "Curve (tiny_key 3) = tiny" "0 \<le> D (tiny_key 3)"
    "valid tiny (coords (tiny_point 1 2))" "valid tiny (coords (tiny_point 3 3))"
    by (simp_all add: tiny_key_def tiny_point_def coords_def valid_def tiny_on_curve_iff)
  from ShareCal_result [OF tiny_curve_ok v r]
  show ?thesis unfolding m by (simp add: tiny_point_def)
qed

theorem share_proof_complete_witness:
  "curve_ok tiny \<and> key_ok tiny (tiny_key 3) \<and>
   on_curve tiny (tiny_point 1 2) \<and> on_curve tiny (tiny_point 3 3) \<and>
   ShareCal (tiny_point 1 2) (tiny_point 3 3) (tiny_key 3)
     ([0, 0, 0, 0, 0, 0, 0, 2] @ [0, 0, 0, 0, 0, 0, 0, 4, 0, 0, 0, 0, 0, 0, 0, 9]) =
     Inr (\<lparr>K = tiny_point 3 3, C = tiny_point 0 4\<rparr>, 3,
          [0, 0, 0, 0, 0, 0, 0, 4, 0, 0, 0, 0, 0, 0, 0, 9]) \<and>
   ShareProofGen tiny_sm3 3 (tiny_key 3) \<lparr>K = tiny_point 3 3, C = tiny_point 0 4\<rparr>
     (tiny_point 1 2) (tiny_point 3 3) [0, 0, 0, 0, 0, 0, 0, 4, 0, 0, 0, 0, 0, 0, 0, 9] =
     Inr (47225008943846605192358362513347225163686581981280857490602308771854766598248,
          6, 5, []) \<and>
   ShareProofVry tiny_sm3
     47225008943846605192358362513347225163686581981280857490602308771854766598248 6 5
     \<lparr>K = tiny_point 3 3, C = tiny_point 0 4\<rparr> (GetPubKey (tiny_key 3))
     (tiny_point 1 2) (tiny_point 3 3) = Inr True"
proof -
  have k: "key_ok tiny (tiny_key 3)" by (simp add: tiny_key_ok)
  have q: "on_curve tiny (tiny_point 1 2)" and rb: "on_curve tiny (tiny_point 3 3)"
    by (simp_all add: tiny_point_on_curve tiny_on_curve_iff)
  have gen: "ShareProofGen tiny_sm3 3 (tiny_key 3) \<lparr>K = tiny_point 3 3, C = tiny_point 0 4\<rparr>
     (tiny_point 1 2) (tiny_point 3 3) [0, 0, 0, 0, 0, 0, 0, 4, 0, 0, 0, 0, 0, 0, 0, 9] =
     Inr (47225008943846605192358362513347225163686581981280857490602308771854766598248,
          6, 5, [])"
    by code_simp
  note sc = ShareCal_tiny_run [of "[0, 0, 0, 0, 0, 0, 0, 4, 0, 0, 0, 0, 0, 0, 0, 9]"]
  from share_proof_complete [OF tiny_curve_ok k q rb sc, of tiny_sm3]
    tiny_curve_ok k q rb sc gen
  show ?thesis by blast
qed

subsection \<open>The key switch from end to end\<close>

lemma mul_swap:
  assumes "group_ok c" "valid c p"
  shows "mul c a (mul c b p) = mul c b (mul c a p)"
proof -
  have "mul c a (mul c b p) = mul c (a * b) p" using assms by (simp add: mul_mult)
  also have "\<dots> = mul c (b * a) p" by (simp add: mult.commute)
  also have "\<dots> = mul c b (mul c a p)" using assms by (simp add: mul_mult)
  finally show ?thesis .
qed

lemma add_cancel_mid:
  assumes "group_ok c" "valid c t" "valid c a" "valid c b"
  shows "add c (add c (neg c t) a) (add c t b) = add c a b"
proof -
  have "add c (add c (neg c t) a) (add c t b) = add c (add c (neg c t) t) (add c a b)"
    using assms by (intro add_swap4) (simp_all add: neg_valid)
  also have "add c (neg c t) t = (0, 0)"
    using assms add_neg_right [of c t] by (simp add: add_comm [of c "neg c t" t] neg_valid)
  finally show ?thesis using assms by (simp add: add_zero_left add_closed)
qed

lemma neg_zero: "0 < P (Params c) \<Longrightarrow> neg c (0, 0) = (0, 0)"
  by (simp add: neg_def)

lemma honest_shares_sum:
  assumes "curve_ok c" and "on_curve c targetPubKey" and "on_curve c rB"
  shows "list_all2 (\<lambda>k s. \<exists>rnd ri rnd'. ShareCal targetPubKey rB k rnd = Inr (s, ri, rnd'))
           privs shares \<Longrightarrow>
         \<forall>k\<in>set privs. key_ok c k \<Longrightarrow>
         (\<forall>s\<in>set shares. share_ok c s) \<and>
         (\<exists>R. psum c (map (\<lambda>s. coords (K s)) shares) = mul c R (base c) \<and>
              psum c (map (\<lambda>s. coords (C s)) shares) =
                add c (mul c (nat (sum_list (map D privs))) (neg c (coords rB)))
                  (mul c R (coords targetPubKey)))"
proof (induction rule: list_all2_induct)
  case Nil
  have g: "group_ok c" using assms(1) by (simp add: curve_ok_def)
  show ?case
    using g by (auto intro!: exI [of _ 0] simp: add_zero_left valid_zero)
next
  case (Cons k privs s shares)
  have g: "group_ok c" using assms(1) by (simp add: curve_ok_def)
  let ?b = "base c" and ?q = "coords targetPubKey" and ?n = "neg c (coords rB)"
  have q: "valid c ?q" and rb: "valid c (coords rB)"
    using assms(2,3) by (simp_all add: on_curve_def)
  have n: "valid c ?n" using neg_valid [OF g rb] .
  have k: "Curve k = c" "0 \<le> D k" "1 \<le> D k" using Cons.prems by (simp_all add: key_ok_def)
  from Cons.hyps(1) obtain rnd ri rnd' where sc: "ShareCal targetPubKey rB k rnd = Inr (s, ri, rnd')"
    by blast
  then have ri: "randFieldElement c rnd = Inr (ri, rnd')"
    using k(1) by (auto elim: ShareCal_cases)
  from ShareCal_result [OF assms(1) k(1,2) q rb ri] sc
  have s: "Curve (K s) = c" "Curve (C s) = c" "coords (K s) = mul c (nat ri) ?b"
    "coords (C s) = add c (neg c (mul c (nat (D k)) (coords rB))) (mul c (nat ri) ?q)"
    by (auto simp: coords_def)
  have sc': "coords (C s) = add c (mul c (nat (D k)) ?n) (mul c (nat ri) ?q)"
    unfolding s using g rb by (simp add: mul_neg)
  have "valid c (coords (K s))"
    unfolding s(3) using g by (simp add: mul_valid base_valid)
  moreover have "valid c (coords (C s))"
    unfolding sc' using g q n by (simp add: mul_valid add_closed)
  ultimately have ok: "share_ok c s"
    using s(1,2) by (simp add: share_ok_def on_curve_def)
  from Cons.IH Cons.prems obtain R where ih: "\<forall>s\<in>set shares. share_ok c s"
    "psum c (map (\<lambda>s. coords (K s)) shares) = mul c R ?b"
    "psum c (map (\<lambda>s. coords (C s)) shares) =
       add c (mul c (nat (sum_list (map D privs))) ?n) (mul c R ?q)"
    by auto
  have sum0: "0 \<le> sum_list (map D privs)"
    using psum_keys [OF assms(1), of privs] Cons.prems by simp
  have sn: "nat (sum_list (map D (k # privs))) = nat (D k) + nat (sum_list (map D privs))"
    using k(2) sum0 by (simp add: nat_add_distrib)
  have 1: "psum c (map (\<lambda>s. coords (K s)) (s # shares)) = mul c (nat ri + R) ?b"
    using g by (simp add: s ih mul_add base_valid)
  have "psum c (map (\<lambda>s. coords (C s)) (s # shares)) =
        add c (add c (mul c (nat (D k)) ?n) (mul c (nat ri) ?q))
          (add c (mul c (nat (sum_list (map D privs))) ?n) (mul c R ?q))"
    by (simp add: sc' ih)
  also have "\<dots> = add c (add c (mul c (nat (D k)) ?n) (mul c (nat (sum_list (map D privs))) ?n))
                      (add c (mul c (nat ri) ?q) (mul c R ?q))"
    using g q n by (intro add_swap4) (simp_all add: mul_valid)
  also have "\<dots> = add c (mul c (nat (sum_list (map D (k # privs)))) ?n) (mul c (nat ri + R) ?q)"
    unfolding sn using g q n by (simp add: mul_add)
  finally have 2: "psum c (map (\<lambda>s. coords (C s)) (s # shares)) =
        add c (mul c (nat (sum_list (map D (k # privs)))) ?n) (mul c (nat ri + R) ?q)" .
  show ?case
    using ok ih(1) 1 2 by (intro conjI exI [of _ "nat ri + R"]) simp_all
qed

text \<open>
  C1.  For a non-empty committee of well-formed keys, a well-formed
  requester key and a point of the curve: if the point is encrypted under
  the aggregate public key of the committee and every member's share is
  the result of a run of \<open>ShareCal\<close> for the requester's public key and
  the left point of the ciphertext, then \<open>ShareReplace\<close> returns a
  ciphertext, and \<open>PointDecrypt\<close> with the requester's key returns the
  point that was encrypted.
\<close>

theorem key_switch_end_to_end:
  assumes "curve_ok c" and "privs \<noteq> []" and "\<forall>k\<in>set privs. key_ok c k"
    and "key_ok c q" and "on_curve c pt"
    and "CollPubKey (map GetPubKey privs) = Inr pagg"
    and "PointEncrypt pagg pt random = Inr (ct, random')"
    and "list_all2 (\<lambda>k s. \<exists>rnd ri rnd'.
             ShareCal (GetPubKey q) (K ct) k rnd = Inr (s, ri, rnd')) privs shares"
  shows "\<exists>tct. ShareReplace shares ct = Inr tct \<and> PointDecrypt tct q = Inr pt"
proof -
  have g: "group_ok c" using assms(1) by (simp add: curve_ok_def)
  let ?b = "base c" and ?S = "nat (sum_list (map D privs))" and ?dq = "nat (D q)"
  have b: "valid c ?b" using base_valid [OF g] .
  have pt: "Curve pt = c" "valid c (coords pt)" using assms(5) by (simp_all add: on_curve_def)
  have q: "Curve q = c" "0 \<le> D q" using assms(4) by (simp_all add: key_ok_def)
  have Q: "on_curve c (GetPubKey q)" "coords (GetPubKey q) = mul c ?dq ?b"
    using key_ok_valid [OF assms(1,4)] key_ok_coords [OF assms(1,4)] q(1)
    by (simp_all add: on_curve_def)
  from CollPubKey_sum [OF assms(1,2,3)] assms(6)
  have pagg: "Curve pagg = c" "coords pagg = mul c ?S ?b"
    by (auto simp: coords_def)
  have vp: "valid c (coords pagg)" unfolding pagg using g b by (simp add: mul_valid)
  from assms(7) obtain r where r: "randFieldElement c random = Inr (r, random')"
    using pagg(1) by (auto elim: PointEncrypt_cases)
  from PointEncrypt_result [OF assms(1) pagg(1) vp r, of pt] assms(7)
  have ct: "Curve (K ct) = c" "coords (K ct) = mul c (nat r) ?b"
    "coords (C ct) = add c (mul c (nat r) (mul c ?S ?b)) (coords pt)"
    unfolding pagg by (auto simp: coords_def)
  have vk: "valid c (coords (K ct))" unfolding ct using g b by (simp add: mul_valid)
  have vc: "valid c (coords (C ct))"
    unfolding ct using g b pt(2) by (simp add: mul_valid add_closed)
  have K: "on_curve c (K ct)" using ct(1) vk by (simp add: on_curve_def)
  from honest_shares_sum [OF assms(1) Q(1) K assms(8,3)] obtain R where
    ok: "\<forall>s\<in>set shares. share_ok c s" and
    sk: "psum c (map (\<lambda>s. coords (K s)) shares) = mul c R ?b" and
    sc: "psum c (map (\<lambda>s. coords (C s)) shares) =
           add c (mul c ?S (neg c (mul c (nat r) ?b))) (mul c R (mul c ?dq ?b))"
    unfolding Q(2) ct by blast
  have ne: "shares \<noteq> []" using assms(2,8) by (auto simp: list_all2_Cons1 neq_Nil_conv)
  let ?t = "mul c (nat r) (mul c ?S ?b)"
  let ?u = "mul c R (mul c ?dq ?b)"
  have t: "mul c ?S (neg c (mul c (nat r) ?b)) = neg c ?t"
    using g b by (simp add: mul_neg mul_valid mul_swap [of c ?b ?S "nat r"])
  have "add c (psum c (map (\<lambda>s. coords (C s)) shares)) (coords (C ct)) =
        add c (add c (neg c ?t) ?u) (add c ?t (coords pt))"
    unfolding sc ct t ..
  also have "\<dots> = add c ?u (coords pt)"
    using g b pt(2) by (intro add_cancel_mid) (simp_all add: mul_valid)
  finally have cc: "add c (psum c (map (\<lambda>s. coords (C s)) shares)) (coords (C ct)) =
        add c ?u (coords pt)" .
  let ?tct = "\<lparr>K = \<lparr>Curve = c, X = fst (mul c R ?b), Y = snd (mul c R ?b)\<rparr>,
               C = \<lparr>Curve = c, X = fst (add c ?u (coords pt)),
                    Y = snd (add c ?u (coords pt))\<rparr>\<rparr>"
  have rep: "ShareReplace shares ct = Inr ?tct"
    using ShareReplace_sum [OF g ct(1) vc ne ok] unfolding sk cc .
  have vt: "valid c (coords (K ?tct))" using g b by (simp add: coords_def mul_valid)
  have "add c (coords (C ?tct)) (neg c (mul c ?dq (coords (K ?tct)))) = coords pt"
    using decrypt_cancel [OF g b pt(2), of R ?dq] by (simp add: coords_def)
  then have "PointDecrypt ?tct q = Inr \<lparr>Curve = c, X = fst (coords pt), Y = snd (coords pt)\<rparr>"
    using PointDecrypt_result [OF assms(1) q vt] by simp
  moreover have "\<lparr>Curve = c, X = fst (coords pt), Y = snd (coords pt)\<rparr> = pt"
    using pt(1) by (intro point_eqI) (simp_all add: coords_def)
  ultimately show ?thesis using rep by simp
qed

theorem key_switch_end_to_end_witness:
  "curve_ok tiny \<and> key_ok tiny (tiny_key 3) \<and> key_ok tiny (tiny_key 5) \<and>
   key_ok tiny (tiny_key 2) \<and> on_curve tiny (tiny_point 0 4) \<and>
   CollPubKey (map GetPubKey [tiny_key 3, tiny_key 5]) = Inr (tiny_point 0 1) \<and>
   PointEncrypt (tiny_point 0 1) (tiny_point 0 4) [0, 0, 0, 0, 0, 0, 0, 2] =
     Inr (\<lparr>K = tiny_point 3 3, C = tiny_point 1 3\<rparr>, []) \<and>
   ShareCal (GetPubKey (tiny_key 2)) (tiny_point 3 3) (tiny_key 3) [0, 0, 0, 0, 0, 0, 0, 2] =
     Inr (\<lparr>K = tiny_point 3 3, C = tiny_point 3 2\<rparr>, 3, []) \<and>
   ShareCal (GetPubKey (tiny_key 2)) (tiny_point 3 3) (tiny_key 5) [0, 0, 0, 0, 0, 0, 0, 4] =
     Inr (\<lparr>K = tiny_point 1 2, C = tiny_point 1 3\<rparr>, 5, []) \<and>
   (\<exists>tct. ShareReplace [\<lparr>K = tiny_point 3 3, C = tiny_point 3 2\<rparr>,
                         \<lparr>K = tiny_point 1 2, C = tiny_point 1 3\<rparr>]
             \<lparr>K = tiny_point 3 3, C = tiny_point 1 3\<rparr> = Inr tct \<and>
          PointDecrypt tct (tiny_key 2) = Inr (tiny_point 0 4))"
proof -
  let ?privs = "[tiny_key 3, tiny_key 5]"
  let ?ct = "\<lparr>K = tiny_point 3 3, C = tiny_point 1 3\<rparr>"
  let ?s1 = "\<lparr>K = tiny_point 3 3, C = tiny_point 3 2\<rparr>"
  let ?s2 = "\<lparr>K = tiny_point 1 2, C = tiny_point 1 3\<rparr>"
  have ks: "\<forall>k\<in>set ?privs. key_ok tiny k" by (simp add: tiny_key_ok)
  have ne: "?privs \<noteq> []" by simp
  have q: "key_ok tiny (tiny_key 2)" by (simp add: tiny_key_ok)
  have pt: "on_curve tiny (tiny_point 0 4)"
    by (simp add: tiny_point_on_curve tiny_on_curve_iff)
  have v: "valid tiny (coords (tiny_point 0 1))" "valid tiny (coords (tiny_point 3 3))"
    "valid tiny (coords (GetPubKey (tiny_key 2)))"
    using key_ok_valid [OF tiny_curve_ok q]
    by (simp_all add: tiny_point_def coords_def valid_def tiny_on_curve_iff)
  have m0: "mul tiny (nat (sum_list (map D ?privs))) (base tiny) = (0, 1)"
    by code_simp
  have pagg: "CollPubKey (map GetPubKey ?privs) = Inr (tiny_point 0 1)"
    using CollPubKey_sum [OF tiny_curve_ok ne ks] unfolding m0 by (simp add: tiny_point_def)
  have r2: "randFieldElement tiny [0, 0, 0, 0, 0, 0, 0, 2] = Inr (3, [])"
    and r4: "randFieldElement tiny [0, 0, 0, 0, 0, 0, 0, 4] = Inr (5, [])"
    by code_simp+
  have m1: "mul tiny (nat 3) (base tiny) = (3, 3)"
    "add tiny (mul tiny (nat 3) (coords (tiny_point 0 1))) (coords (tiny_point 0 4)) = (1, 3)"
    by code_simp+
  have enc: "PointEncrypt (tiny_point 0 1) (tiny_point 0 4) [0, 0, 0, 0, 0, 0, 0, 2] =
     Inr (?ct, [])"
    using PointEncrypt_result [OF tiny_curve_ok _ v(1) r2, of "tiny_point 0 4"]
    unfolding m1 by (simp add: tiny_point_def)
  have m2: "add tiny (neg tiny (mul tiny (nat (D (tiny_key 3))) (coords (tiny_point 3 3))))
       (mul tiny (nat 3) (coords (GetPubKey (tiny_key 2)))) = (3, 2)"
    by code_simp
  have s1: "ShareCal (GetPubKey (tiny_key 2)) (tiny_point 3 3) (tiny_key 3)
      [0, 0, 0, 0, 0, 0, 0, 2] = Inr (?s1, 3, [])"
    using ShareCal_result [OF tiny_curve_ok _ _ v(3,2) r2, of "tiny_key 3"]
    unfolding m1 m2 by (simp add: tiny_point_def tiny_key_def)
  have m3: "mul tiny (nat 5) (base tiny) = (1, 2)"
    "add tiny (neg tiny (mul tiny (nat (D (tiny_key 5))) (coords (tiny_point 3 3))))
       (mul tiny (nat 5) (coords (GetPubKey (tiny_key 2)))) = (1, 3)"
    by code_simp+
  have s2: "ShareCal (GetPubKey (tiny_key 2)) (tiny_point 3 3) (tiny_key 5)
      [0, 0, 0, 0, 0, 0, 0, 4] = Inr (?s2, 5, [])"
    using ShareCal_result [OF tiny_curve_ok _ _ v(3,2) r4, of "tiny_key 5"]
    unfolding m3 by (simp add: tiny_point_def tiny_key_def)
  have "list_all2 (\<lambda>k s. \<exists>rnd ri rnd'.
          ShareCal (GetPubKey (tiny_key 2)) (K ?ct) k rnd = Inr (s, ri, rnd')) ?privs [?s1, ?s2]"
    using s1 s2 by auto
  from key_switch_end_to_end [OF tiny_curve_ok ne ks q pt pagg enc this]
    tiny_curve_ok ks q pt pagg enc s1 s2
  show ?thesis by simp
qed

subsection \<open>Which objects a call writes to\<close>

text \<open>Every call only extends the store: the objects that existed before keep their values.\<close>

lemmas store_defs =
  new_Int_def alloc_point_def Add_h_def ScalarMult_h_def ScalarBaseMult_h_def
  Neg_at_def Add_at_def Sub_at_def Mod_at_def challenge_h_def

lemma randFieldElement_h_extends:
  assumes "randFieldElement_h one c random h = (r, h')"
  shows "\<exists>ys. h' = h @ ys \<and> (\<forall>k random'. r = Inr (k, random') \<longrightarrow> k = length h)"
  using assms
  by (auto simp: randFieldElement_h_def store_defs Let_def list_update_append
      split: sum.splits prod.splits if_splits)

lemma PointDecrypt_h_extends:
  assumes "PointDecrypt_h ct priv h = (r, h')"
  shows "\<exists>ys. h' = h @ ys"
  using assms
  by (auto simp: PointDecrypt_h_def store_defs Let_def list_update_append
      split: sum.splits prod.splits if_splits)

lemma PointDecrypt_ppks_h_extends:
  assumes "PointDecrypt_ppks_h ct priv h = (r, h')"
  shows "\<exists>ys. h' = h @ ys"
  using assms
  by (auto simp: PointDecrypt_ppks_h_def store_defs Let_def list_update_append
      split: sum.splits prod.splits if_splits)

lemma PointEncrypt_h_extends:
  assumes "PointEncrypt_h one pub pt random h = (r, h')"
  shows "\<exists>ys. h' = h @ ys"
  using assms
  by (auto simp: PointEncrypt_h_def store_defs Let_def list_update_append
      split: sum.splits prod.splits if_splits dest!: randFieldElement_h_extends)

lemma ShareCal_h_extends:
  assumes "ShareCal_h one targetPubKey rB priv random h = (r, h')"
  shows "\<exists>ys. h' = h @ ys"
  using assms
  by (auto simp: ShareCal_h_def store_defs Let_def list_update_append
      split: sum.splits prod.splits if_splits dest!: randFieldElement_h_extends)

lemma ShareCal_ppks_h_extends:
  assumes "ShareCal_ppks_h one targetPubKey rB priv random h = (r, h')"
  shows "\<exists>ys. h' = h @ ys"
  using assms
  by (auto simp: ShareCal_ppks_h_def store_defs Let_def list_update_append
      split: sum.splits prod.splits if_splits dest!: randFieldElement_h_extends)

lemma Add_h_extends: "Add_h c x1 y1 x2 y2 h = (r, h') \<Longrightarrow> \<exists>ys. h' = h @ ys"
  by (auto simp: store_defs)

lemma ShareReplace_loop_h_extends:
  "ShareReplace_loop_h curve sigma shares h = (r, h') \<Longrightarrow> \<exists>ys. h' = h @ ys"
proof (induction shares arbitrary: sigma h)
  case Nil
  then show ?case by simp
next
  case (Cons share shares)
  obtain kx ky h1 where 1:
    "Add_h curve (X_at (K_of sigma)) (Y_at (K_of sigma)) (X_at (K_of share)) (Y_at (K_of share)) h
       = ((kx, ky), h1)"
    by (metis surj_pair)
  obtain cx cy h2 where 2:
    "Add_h curve (X_at (C_of sigma)) (Y_at (C_of sigma)) (X_at (C_of share)) (Y_at (C_of share)) h1
       = ((cx, cy), h2)"
    by (metis surj_pair)
  from Cons.prems have
    "ShareReplace_loop_h curve
       (sigma\<lparr>K_of := (K_of sigma)\<lparr>X_at := kx, Y_at := ky\<rparr>,
               C_of := (C_of sigma)\<lparr>X_at := cx, Y_at := cy\<rparr>\<rparr>) shares h2 = (r, h')"
    by (simp add: 1 2)
  from Cons.IH [OF this] Add_h_extends [OF 1] Add_h_extends [OF 2]
  show ?case by auto
qed

lemma ShareReplace_h_extends:
  assumes "ShareReplace_h shares rct h = (r, h')"
  shows "\<exists>ys. h' = h @ ys"
  using assms
  by (auto simp: ShareReplace_h_def Let_def split: list.splits prod.splits
      dest!: ShareReplace_loop_h_extends Add_h_extends)

lemma response1_h_extends:
  assumes "response1_h n c y v h = (r, h')"
  shows "\<exists>ys. h' = h @ ys"
  using assms
  by (auto simp: response1_h_def store_defs Let_def list_update_append
      split: sum.splits prod.splits if_splits)

lemma response2_h_extends:
  assumes "response2_h n c y v h = (r, h')"
  shows "\<exists>ys. h' = h @ ys"
  using assms
  by (auto simp: response2_h_def store_defs Let_def list_update_append
      split: sum.splits prod.splits if_splits)

lemma negated_h_extends:
  assumes "negated_h curve rB h = (r, h')"
  shows "\<exists>ys. h' = h @ ys"
  using assms
  by (auto simp: negated_h_def store_defs Let_def list_update_append
      split: sum.splits prod.splits if_splits)

lemma ScalarMult_h_extends:
  "ScalarMult_h c x1 y1 k h = (r, h') \<Longrightarrow> \<exists>ys. h' = h @ ys"
  by (auto simp: store_defs)

lemma challenge_h_extends: "challenge_h sm3 ws h = (r, h') \<Longrightarrow> \<exists>ys. h' = h @ ys"
  by (auto simp: store_defs)

lemma ProofVrf_h_extends:
  assumes "ProofVrf_h sm3 c r1 r2 B Y1 Y2 A1 A2 A h = (r, h')"
  shows "\<exists>ys. h' = h @ ys"
  using assms
  by (auto simp: ProofVrf_h_def Let_def split: prod.splits
      dest!: ScalarMult_h_extends Add_h_extends challenge_h_extends)

lemma ProofGen_h_extends:
  assumes "ProofGen_h one sm3 y1 y2 B Y1 Y2 A1 A2 A random h = (r, h')"
  shows "\<exists>ys. h' = h @ ys"
  using assms
  by (auto simp: ProofGen_h_def Let_def split: prod.splits sum.splits
      dest!: randFieldElement_h_extends ScalarMult_h_extends Add_h_extends
        challenge_h_extends response1_h_extends response2_h_extends)

lemma ShareProofGen_h_extends:
  assumes "ShareProofGen_h one sm3 ri priv share targetPubKey rB random h = (r, h')"
  shows "\<exists>ys. h' = h @ ys"
  using assms
  by (auto simp: ShareProofGen_h_def Let_def split: prod.splits sum.splits
      dest!: negated_h_extends ProofGen_h_extends)

lemma ShareProofVry_h_extends:
  assumes "ShareProofVry_h sm3 c r1 r2 share nodePubKey targetPubKey rB h = (r, h')"
  shows "\<exists>ys. h' = h @ ys"
  using assms
  by (auto simp: ShareProofVry_h_def Let_def split: prod.splits sum.splits
      dest!: negated_h_extends ProofVrf_h_extends)

lemma extends_prefix: "(\<And>r h'. f h = (r, h') \<Longrightarrow> \<exists>ys. h' = h @ ys) \<Longrightarrow> prefix h (snd (f h))"
  by (cases "f h") (auto simp: prefix_def)

text \<open>
  C10.  Each exported operation, in both files, returns a store of which
  the store before the call is a prefix: every big integer that existed
  before the call (those the points, keys, ciphertexts and shares passed
  as arguments refer to, the curve parameters, the variable \<open>one\<close>)
  has its value after the call, whether the call succeeds or fails.  The
  objects written in place are the ones allocated during the call.
\<close>

theorem no_argument_mutation:
  "prefix h (snd (PointEncrypt_h one pub pt random h)) \<and>
   prefix h (snd (PointDecrypt_h ct priv h)) \<and>
   prefix h (snd (PointDecrypt_ppks_h ct priv h)) \<and>
   prefix h (snd (ShareCal_h one targetPubKey rB priv random h)) \<and>
   prefix h (snd (ShareCal_ppks_h one targetPubKey rB priv random h)) \<and>
   prefix h (snd (ShareReplace_h shares rct h)) \<and>
   prefix h (snd (ShareProofGen_h one sm3 ri priv share targetPubKey rB random h)) \<and>
   prefix h (snd (ShareProofVry_h sm3 c r1 r2 share nodePubKey targetPubKey rB h))"
proof (intro conjI)
  show "prefix h (snd (PointEncrypt_h one pub pt random h))"
    by (rule extends_prefix) (rule PointEncrypt_h_extends)
  show "prefix h (snd (PointDecrypt_h ct priv h))"
    by (rule extends_prefix) (rule PointDecrypt_h_extends)
  show "prefix h (snd (PointDecrypt_ppks_h ct priv h))"
    by (rule extends_prefix) (rule PointDecrypt_ppks_h_extends)
  show "prefix h (snd (ShareCal_h one targetPubKey rB priv random h))"
    by (rule extends_prefix) (rule ShareCal_h_extends)
  show "prefix h (snd (ShareCal_ppks_h one targetPubKey rB priv random h))"
    by (rule extends_prefix) (rule ShareCal_ppks_h_extends)
  show "prefix h (snd (ShareReplace_h shares rct h))"
    by (rule extends_prefix) (rule ShareReplace_h_extends)
  show "prefix h (snd (ShareProofGen_h one sm3 ri priv share targetPubKey rB random h))"
    by (rule extends_prefix) (rule ShareProofGen_h_extends)
  show "prefix h (snd (ShareProofVry_h sm3 c r1 r2 share nodePubKey targetPubKey rB h))"
    by (rule extends_prefix) (rule ShareProofVry_h_extends)
qed

text \<open>
  The store does tell an in-place write to an existing object from a write
  to a new one: negating the object at address 0 in place changes the store.
\<close>

lemma Neg_at_existing_object: "\<not> prefix [5] (Neg_at 0 0 [5])"
  by (simp add: Neg_at_def)

subsection \<open>The store-level functions compute the same values\<close>

text \<open>
  Read through the store, the store-level decryptions, the sampler and the
  verifier return what the functions on values return.
\<close>

lemmas val_defs = point_val_def key_val_def text_val_def point_in_def key_in_def text_in_def
  params_in_def

lemma PointDecrypt_h_refines:
  assumes "params_in h one (Curve_of priv)" and "text_in h ct" and "key_in h priv"
  shows "(case PointDecrypt_h ct priv h of
            (Inl err, h') \<Rightarrow> PointDecrypt (text_val h ct) (key_val h priv) = Inl err
          | (Inr p, h') \<Rightarrow> PointDecrypt (text_val h ct) (key_val h priv) = Inr (point_val h' p))"
  using assms
  by (auto simp: PointDecrypt_h_def PointDecrypt_def store_defs val_defs Let_def nth_append
      Mod_def split: prod.splits sum.splits if_splits)

lemma PointDecrypt_ppks_h_refines:
  assumes "text_in h ct" and "key_in h priv"
  shows "(case PointDecrypt_ppks_h ct priv h of
            (Inl err, h') \<Rightarrow> PointDecrypt_ppks (text_val h ct) (key_val h priv) = Inl err
          | (Inr p, h') \<Rightarrow> PointDecrypt_ppks (text_val h ct) (key_val h priv) = Inr (point_val h' p))"
  using assms
  by (auto simp: PointDecrypt_ppks_h_def PointDecrypt_ppks_def store_defs val_defs Let_def
      nth_append split: prod.splits sum.splits if_splits)

lemma randFieldElement_h_refines:
  assumes "params_in h one c"
  shows "(case randFieldElement_h one c random h of
            (Inl err, h') \<Rightarrow> randFieldElement (Ops c) random = Inl err
          | (Inr (k, random'), h') \<Rightarrow>
              randFieldElement (Ops c) random = Inr (h' ! k, random') \<and> k = length h \<and>
              (\<exists>ys. h' = h @ ys))"
  using assms
  by (auto simp: randFieldElement_h_def randFieldElement_def store_defs val_defs Let_def
      nth_append Mod_def list_update_append split: prod.splits sum.splits if_splits)

lemma ScalarMult_h_run:
  "ScalarMult_h c x y k h = ((a, b), h') \<Longrightarrow>
     \<exists>u v. ScalarMult (Ops c) (h ! x) (h ! y) k = (u, v) \<and> h' = h @ [u, v] \<and>
           a = length h \<and> b = Suc (length h)"
  by (cases "ScalarMult (Ops c) (h ! x) (h ! y) k") (auto simp: store_defs)

lemma Add_h_run:
  "Add_h c x1 y1 x2 y2 h = ((a, b), h') \<Longrightarrow>
     \<exists>u v. Add (Ops c) (h ! x1) (h ! y1) (h ! x2) (h ! y2) = (u, v) \<and> h' = h @ [u, v] \<and>
           a = length h \<and> b = Suc (length h)"
  by (cases "Add (Ops c) (h ! x1) (h ! y1) (h ! x2) (h ! y2)") (auto simp: store_defs)

lemma challenge_h_run:
  "challenge_h sm3 ws h = (a, h') \<Longrightarrow>
     h' = h @ [challenge sm3 (map (\<lambda>a. h ! a) ws)] \<and> a = length h"
  by (auto simp: store_defs)

lemma ProofVrf_h_refines:
  assumes "point_in h B" "point_in h Y1" "point_in h Y2" "point_in h A1" "point_in h A2"
    "point_in h A" "c < length h" "r1 < length h" "r2 < length h"
    and "ProofVrf_h sm3 c r1 r2 B Y1 Y2 A1 A2 A h = (r, h')"
  shows "r = ProofVrf sm3 (h ! c) (h ! r1) (h ! r2) (point_val h B) (point_val h Y1)
             (point_val h Y2) (point_val h A1) (point_val h A2) (point_val h A)"
  using assms
  by (auto simp: ProofVrf_h_def ProofVrf_def val_defs Let_def nth_append
      split: prod.splits dest!: ScalarMult_h_run Add_h_run challenge_h_run)

end
